theory Spec2Isabelle
  imports Complex_Main "HOL-Library.Word"
begin

section \<open>Data model of the transfer protocol (file-share-station.tsx)\<close>

text \<open>
  Byte contents (\<^verbatim>\<open>ArrayBuffer\<close>, \<^verbatim>\<open>Blob\<close>, the contents of a \<^verbatim>\<open>File\<close>) are lists of
  bytes. The numbers of the payloads (sizes, counts of chunks, chunk indices) are
  non-negative integers, as the payload types and the sender give them. Strings of the
  transfer protocol are \<^typ>\<open>string\<close>.
\<close>

type_synonym byte = "8 word"
type_synonym ArrayBuffer = "byte list"
type_synonym Blob = "byte list"

text \<open>\<^verbatim>\<open>TransferMeta\<close>; the fields \<^verbatim>\<open>size\<close> and \<^verbatim>\<open>type\<close> carry a suffix.\<close>

record TransferMeta =
  transferId :: string
  name :: string
  size_bytes :: nat
  type_mime :: string
  relativePath :: "string option"
  totalChunks :: nat

datatype incoming_status = IPending | IReceiving | IComplete | IError

text \<open>
  \<^verbatim>\<open>IncomingTransfer\<close>. An object URL made by \<^verbatim>\<open>URL.createObjectURL\<close> is the number of
  URLs created before it, which makes every URL fresh.
\<close>

record IncomingTransfer =
  meta :: TransferMeta
  receivedBytes :: nat
  receivedChunks :: nat
  status :: incoming_status
  errorMessage :: "string option"
  downloadUrl :: "nat option"
  blob :: "Blob option"

text \<open>What the JavaScript of a handler itself throws.\<close>

datatype js_error = RangeError | TypeError

text \<open>
  A slot buffer is a JavaScript array of \<^verbatim>\<open>BlobPart | undefined\<close>. Its elements are the
  slots with an array index, which is a number from \<open>0\<close> to \<open>2^32 - 2\<close>; the length of the
  list is the \<^verbatim>\<open>length\<close> of the array and an empty slot (a hole) is \<open>None\<close>. A value
  stored under a larger number is an ordinary property of the object: it can be read back
  under that number, but it is no element, so \<^verbatim>\<open>length\<close> and \<^verbatim>\<open>filter\<close> do not see it.
\<close>

record slots =
  elements :: "ArrayBuffer option list"
  properties :: "nat \<rightharpoonup> ArrayBuffer"

text \<open>
  The receiving side of the component: the \<^verbatim>\<open>incomingFiles\<close> state, the
  \<^verbatim>\<open>incomingBuffers\<close> map, the set \<^verbatim>\<open>downloadUrlsRef\<close>, and the count of object URLs
  created so far.
\<close>

record receiver =
  incomingFiles :: "IncomingTransfer list"
  incomingBuffers :: "string \<rightharpoonup> slots"
  downloadUrls :: "nat set"
  urlsCreated :: nat

text \<open>The four transfer messages, each with the \<^verbatim>\<open>roomId\<close> of its payload first.\<close>

datatype message =
    FileMeta string TransferMeta
  | FileChunk string string nat ArrayBuffer
  | FileComplete string string
  | FileError string string "string option"

text \<open>The \<^verbatim>\<open>transferId\<close> of a message.\<close>

fun messageTransfer :: "message \<Rightarrow> string" where
  "messageTransfer (FileMeta room m) = transferId m"
| "messageTransfer (FileChunk room tid chunkIndex chunk) = tid"
| "messageTransfer (FileComplete room tid) = tid"
| "messageTransfer (FileError room tid msg) = tid"

section \<open>Reception Assembler: the socket handlers of \<^verbatim>\<open>handleConnect\<close>\<close>

text \<open>The largest \<^verbatim>\<open>length\<close> of an array, \<open>2^32 - 1\<close>; array indices are below it.\<close>

definition MAX_ARRAY_LENGTH :: nat where
  "MAX_ARRAY_LENGTH = 4294967295"

text \<open>
  \<^verbatim>\<open>new Array(n)\<close>: \<open>n\<close> empty slots, and a \<^verbatim>\<open>RangeError\<close> when \<open>n\<close> is no array
  length.
\<close>

definition newArray :: "nat \<Rightarrow> js_error + slots" where
  "newArray n =
     (if n \<le> MAX_ARRAY_LENGTH then Inr \<lparr>elements = replicate n None, properties = Map.empty\<rparr>
      else Inl RangeError)"

text \<open>
  \<^verbatim>\<open>buffers[i] = chunk\<close>: for an array index, the slot is overwritten inside the array,
  and beyond its end the array grows to length \<open>i + 1\<close>, the slots in between staying
  empty; for a larger number an ordinary property is set.
\<close>

definition arrayStore :: "slots \<Rightarrow> nat \<Rightarrow> ArrayBuffer \<Rightarrow> slots" where
  "arrayStore buffers i chunk =
     (if i < MAX_ARRAY_LENGTH then
        (if i < length (elements buffers)
         then buffers\<lparr>elements := (elements buffers)[i := Some chunk]\<rparr>
         else buffers\<lparr>elements :=
                elements buffers @ replicate (i - length (elements buffers)) None @ [Some chunk]\<rparr>)
      else buffers\<lparr>properties := (properties buffers)(i \<mapsto> chunk)\<rparr>)"

text \<open>The read \<^verbatim>\<open>buffers[i]\<close>, with \<open>None\<close> for \<^verbatim>\<open>undefined\<close>.\<close>

definition arrayGet :: "slots \<Rightarrow> nat \<Rightarrow> ArrayBuffer option" where
  "arrayGet buffers i =
     (if i < MAX_ARRAY_LENGTH then
        (if i < length (elements buffers) then elements buffers ! i else None)
      else properties buffers i)"

text \<open>
  \<^verbatim>\<open>buffers.filter((chunk) => Boolean(chunk))\<close> on the elements: the populated slots in
  index order (an \<^verbatim>\<open>ArrayBuffer\<close> is an object, hence truthy, also when it is empty; holes
  are skipped).
\<close>

fun orderedChunks :: "ArrayBuffer option list \<Rightarrow> ArrayBuffer list" where
  "orderedChunks [] = []"
| "orderedChunks (None # rest) = orderedChunks rest"
| "orderedChunks (Some chunk # rest) = chunk # orderedChunks rest"

text \<open>\<^verbatim>\<open>new Blob(orderedChunks)\<close>: the parts one after the other.\<close>

definition newBlob :: "ArrayBuffer list \<Rightarrow> Blob" where
  "newBlob parts = concat parts"

text \<open>
  \<^verbatim>\<open>socket.on("file:meta", ...)\<close>. The array is created before anything is registered, so
  a \<^verbatim>\<open>RangeError\<close> leaves the handler with nothing changed.
\<close>

definition handleFileMeta :: "TransferMeta \<Rightarrow> receiver \<Rightarrow> js_error + receiver" where
  "handleFileMeta m st =
     (case newArray (totalChunks m) of
        Inl err \<Rightarrow> Inl err
      | Inr buffers \<Rightarrow>
          Inr (st\<lparr>incomingBuffers := (incomingBuffers st)(transferId m \<mapsto> buffers),
                  incomingFiles :=
                    filter (\<lambda>item. transferId (meta item) \<noteq> transferId m) (incomingFiles st)
                    @ [\<lparr>meta = m, receivedBytes = 0, receivedChunks = 0, status = IPending,
                         errorMessage = None, downloadUrl = None, blob = None\<rparr>]\<rparr>))"

text \<open>\<^verbatim>\<open>socket.on("file:chunk", ...)\<close>\<close>

definition handleFileChunk :: "string \<Rightarrow> nat \<Rightarrow> ArrayBuffer \<Rightarrow> receiver \<Rightarrow> receiver" where
  "handleFileChunk tid chunkIndex chunk st =
     (case incomingBuffers st tid of
        None \<Rightarrow> st
      | Some buffers \<Rightarrow>
          st\<lparr>incomingBuffers := (incomingBuffers st)(tid \<mapsto> arrayStore buffers chunkIndex chunk),
             incomingFiles :=
               map (\<lambda>incoming.
                      if transferId (meta incoming) \<noteq> tid then incoming
                      else incoming\<lparr>receivedBytes := receivedBytes incoming + length chunk,
                                    receivedChunks := receivedChunks incoming + 1,
                                    status := IReceiving\<rparr>)
                   (incomingFiles st)\<rparr>)"

text \<open>\<^verbatim>\<open>socket.on("file:complete", ...)\<close>\<close>

definition handleFileComplete :: "string \<Rightarrow> receiver \<Rightarrow> receiver" where
  "handleFileComplete tid st =
     (case incomingBuffers st tid of
        None \<Rightarrow> st
      | Some buffers \<Rightarrow>
          (let assembled = newBlob (orderedChunks (elements buffers));
               url = urlsCreated st
           in st\<lparr>urlsCreated := Suc (urlsCreated st),
                 downloadUrls := insert url (downloadUrls st),
                 incomingFiles :=
                   map (\<lambda>item.
                          if transferId (meta item) = tid
                          then item\<lparr>status := IComplete,
                                    receivedBytes := size_bytes (meta item),
                                    receivedChunks := totalChunks (meta item),
                                    downloadUrl := Some url,
                                    blob := Some assembled\<rparr>
                          else item)
                       (incomingFiles st),
                 incomingBuffers := (incomingBuffers st)(tid := None)\<rparr>))"

text \<open>\<^verbatim>\<open>socket.on("file:error", ...)\<close>\<close>

definition handleFileError :: "string \<Rightarrow> string option \<Rightarrow> receiver \<Rightarrow> receiver" where
  "handleFileError tid msg st =
     st\<lparr>incomingFiles :=
          map (\<lambda>incoming.
                 if transferId (meta incoming) = tid
                 then incoming\<lparr>status := IError,
                               errorMessage :=
                                 Some (case msg of
                                         Some text_of_sender \<Rightarrow> text_of_sender
                                       | None \<Rightarrow> ''Terjadi kesalahan saat menerima berkas.'')\<rparr>
                 else incoming)
              (incomingFiles st),
        incomingBuffers := (incomingBuffers st)(tid := None)\<rparr>"

text \<open>
  The receiver after one handled message; the handlers ignore the \<^verbatim>\<open>roomId\<close> of the
  payload. Nothing in the component catches what a handler throws: the state is then as
  the handler left it, which for \<^verbatim>\<open>file:meta\<close> is the state before.
\<close>

fun handle :: "message \<Rightarrow> receiver \<Rightarrow> receiver" where
  "handle (FileMeta room m) st = (case handleFileMeta m st of Inl err \<Rightarrow> st | Inr st' \<Rightarrow> st')"
| "handle (FileChunk room tid chunkIndex chunk) st = handleFileChunk tid chunkIndex chunk st"
| "handle (FileComplete room tid) st = handleFileComplete tid st"
| "handle (FileError room tid msg) st = handleFileError tid msg st"

text \<open>Messages handled one after the other, first to last.\<close>

definition receiveAll :: "message list \<Rightarrow> receiver \<Rightarrow> receiver" where
  "receiveAll msgs st = fold handle msgs st"

text \<open>The state after \<^verbatim>\<open>resetTransfers\<close> on a fresh component.\<close>

definition initialReceiver :: receiver where
  "initialReceiver =
     \<lparr>incomingFiles = [], incomingBuffers = Map.empty, downloadUrls = {}, urlsCreated = 0\<rparr>"

section \<open>Transfer Sender: \<^verbatim>\<open>handleSendQueuedFiles\<close>\<close>

text \<open>
  What a rejected \<^verbatim>\<open>blob.arrayBuffer()\<close> or a failing \<^verbatim>\<open>socket.emit\<close> throws: an
  \<^verbatim>\<open>Error\<close> with its message, or any other value.
\<close>

datatype thrown = ErrorObject string | OtherValue

text \<open>
  A browser \<^verbatim>\<open>File\<close>: its name, type and bytes (\<^verbatim>\<open>file.size\<close> is the number of bytes).
  The environment's part is the list \<open>readFaults\<close>: the chunk indices at which reading
  the file fails, each with what is thrown.
\<close>

record File =
  file_name :: string
  file_type :: string
  file_bytes :: "byte list"
  readFaults :: "(nat \<times> thrown) list"

definition readFault :: "File \<Rightarrow> nat \<Rightarrow> thrown option" where
  "readFault file chunkIndex = map_of (readFaults file) chunkIndex"

text \<open>
  The socket's part of the environment: the messages whose \<^verbatim>\<open>socket.emit\<close> throws, each
  with what is thrown. A throwing emit sends nothing.
\<close>

type_synonym emit_faults = "(message \<times> thrown) list"

definition emitFault :: "emit_faults \<Rightarrow> message \<Rightarrow> thrown option" where
  "emitFault faults msg = map_of faults msg"

text \<open>\<^verbatim>\<open>QueuedFile\<close>; the prefix keeps its fields apart from those of \<^verbatim>\<open>TransferMeta\<close>.\<close>

record QueuedFile =
  queued_id :: string
  queued_file :: File
  queued_name :: string
  queued_size :: nat
  queued_type :: string
  queued_relativePath :: "string option"




definition FILE_CHUNK_SIZE :: nat where
  "FILE_CHUNK_SIZE = 512 * 1024"

text \<open>
  \<^verbatim>\<open>Math.ceil(file.size / FILE_CHUNK_SIZE) || 1\<close>: the quotient is exact (the divisor is a
  power of two), and \<^verbatim>\<open>||\<close> replaces the falsy result \<open>0\<close> by \<open>1\<close>.
\<close>

definition totalChunksOf :: "nat \<Rightarrow> nat" where
  "totalChunksOf sz =
     (let c = nat \<lceil>real sz / real FILE_CHUNK_SIZE\<rceil> in if c = 0 then 1 else c)"

text \<open>
  \<^verbatim>\<open>file.slice(start, end)\<close> for non-negative arguments: both ends are cut at the size,
  and an end before the start gives no bytes.
\<close>

definition blobSlice :: "byte list \<Rightarrow> nat \<Rightarrow> nat \<Rightarrow> byte list" where
  "blobSlice bytes start end_pos =
     (let relativeStart = min start (length bytes);
          relativeEnd = min end_pos (length bytes)
      in take (relativeEnd - relativeStart) (drop relativeStart bytes))"

text \<open>
  The first lines of the loop body: \<^verbatim>\<open>start\<close>, \<^verbatim>\<open>end\<close> and the bytes of
  \<^verbatim>\<open>file.slice(start, end)\<close>, which \<^verbatim>\<open>arrayBuffer()\<close> returns when the read succeeds.
\<close>

definition chunkBuffer :: "File \<Rightarrow> nat \<Rightarrow> ArrayBuffer" where
  "chunkBuffer file chunkIndex =
     (let start = chunkIndex * FILE_CHUNK_SIZE;
          end_pos = min (start + FILE_CHUNK_SIZE) (length (file_bytes file))
      in blobSlice (file_bytes file) start end_pos)"

text \<open>\<^verbatim>\<open>error instanceof Error ? error.message : "Tidak dapat mengirim berkas."\<close>\<close>

fun messageOf :: "thrown \<Rightarrow> string" where
  "messageOf (ErrorObject m) = m"
| "messageOf OtherValue = ''Tidak dapat mengirim berkas.''"

text \<open>
  The effects of \<^verbatim>\<open>sendFile\<close>, each a state update or an emit of the source:
  registering the transfer as pending, an emit that sends its message, the progress update
  after a chunk, the two final status updates, and the removal from the queue in
  \<^verbatim>\<open>finally\<close>.
\<close>

datatype step =
    SetPending TransferMeta
  | Emit message
  | SetSending string nat
  | SetComplete string
  | SetError string string
  | Unqueue string


text \<open>
  A part of \<^verbatim>\<open>sendFile\<close> gives the effects it has and tells whether it ends by throwing,
  which rejects the promise of \<^verbatim>\<open>sendFile\<close>.

  The \<^verbatim>\<open>catch\<close> block: it emits \<^verbatim>\<open>file:error\<close> and then marks the transfer. When that
  emit throws, the status update is skipped and the exception leaves \<^verbatim>\<open>sendFile\<close> (after
  \<^verbatim>\<open>finally\<close>).
\<close>

definition catchBlock :: "emit_faults \<Rightarrow> string \<Rightarrow> string \<Rightarrow> thrown \<Rightarrow> step list \<times> bool" where
  "catchBlock faults room tid err =
     (case emitFault faults (FileError room tid (Some (messageOf err))) of
        Some err' \<Rightarrow> ([], True)
      | None \<Rightarrow>
          ([Emit (FileError room tid (Some (messageOf err))), SetError tid (messageOf err)],
           False))"

text \<open>
  The \<^verbatim>\<open>try\<close> block from \<open>chunkIndex\<close> on, with its \<^verbatim>\<open>catch\<close>: a failed read or a
  throwing emit ends the loop in the \<^verbatim>\<open>catch\<close> block; after the last chunk
  \<^verbatim>\<open>file:complete\<close> is emitted and the transfer marked complete.
\<close>

function sendChunks ::
  "emit_faults \<Rightarrow> string \<Rightarrow> string \<Rightarrow> File \<Rightarrow> nat \<Rightarrow> nat \<Rightarrow> step list \<times> bool" where
  "sendChunks faults room tid file count chunkIndex =
     (if chunkIndex < count then
        (case readFault file chunkIndex of
           Some err \<Rightarrow> catchBlock faults room tid err
         | None \<Rightarrow>
             (case emitFault faults (FileChunk room tid chunkIndex (chunkBuffer file chunkIndex)) of
                Some err \<Rightarrow> catchBlock faults room tid err
              | None \<Rightarrow>
                  apfst (\<lambda>later. Emit (FileChunk room tid chunkIndex (chunkBuffer file chunkIndex))
                                  # SetSending tid (chunkIndex + 1) # later)
                    (sendChunks faults room tid file count (chunkIndex + 1))))
      else
        (case emitFault faults (FileComplete room tid) of
           Some err \<Rightarrow> catchBlock faults room tid err
         | None \<Rightarrow> ([Emit (FileComplete room tid), SetComplete tid], False)))"
  by pat_completeness auto
termination
  by (relation "measure (\<lambda>(faults, room, tid, file, count, chunkIndex). count - chunkIndex)") auto

declare sendChunks.simps [simp del]

text \<open>The \<^verbatim>\<open>TransferMeta\<close> that \<^verbatim>\<open>sendFile\<close> builds for a queued file.\<close>

definition metaOf :: "string \<Rightarrow> QueuedFile \<Rightarrow> TransferMeta" where
  "metaOf tid queued =
     \<lparr>transferId = tid,
      name = file_name (queued_file queued),
      size_bytes = length (file_bytes (queued_file queued)),
      type_mime = file_type (queued_file queued),
      relativePath = queued_relativePath queued,
      totalChunks = totalChunksOf (length (file_bytes (queued_file queued)))\<rparr>"

text \<open>
  \<^verbatim>\<open>sendFile\<close>: its effects and whether its promise rejects; \<open>tid\<close> is the identifier that
  \<^verbatim>\<open>generateTransferId\<close> returned and \<open>room\<close> is \<^verbatim>\<open>effectiveRoomId\<close>. The emit of
  \<^verbatim>\<open>file:meta\<close> stands before the \<^verbatim>\<open>try\<close>: when it throws, nothing more happens, not even
  the removal from the queue.
\<close>

definition sendFile :: "emit_faults \<Rightarrow> string \<Rightarrow> string \<Rightarrow> QueuedFile \<Rightarrow> step list \<times> bool" where
  "sendFile faults room tid queued =
     (case emitFault faults (FileMeta room (metaOf tid queued)) of
        Some err \<Rightarrow> ([SetPending (metaOf tid queued)], True)
      | None \<Rightarrow>
          (case sendChunks faults room tid (queued_file queued)
                  (totalChunksOf (length (file_bytes (queued_file queued)))) 0 of
             (tried, rejected) \<Rightarrow>
               ([SetPending (metaOf tid queued), Emit (FileMeta room (metaOf tid queued))]
                @ tried @ [Unqueue (queued_id queued)],
                rejected)))"

text \<open>The messages a sequence of effects sends, in order.\<close>

fun messagesOf :: "step list \<Rightarrow> message list" where
  "messagesOf [] = []"
| "messagesOf (Emit msg # rest) = msg # messagesOf rest"
| "messagesOf (other # rest) = messagesOf rest"

text \<open>
  The count of chunks in the words of the specification:
  \<open>totalChunks = max(1, ceil(size / chunkSize))\<close>.
\<close>

definition spec_totalChunks :: "nat \<Rightarrow> nat \<Rightarrow> nat" where
  "spec_totalChunks sz chunkSize = max 1 (nat \<lceil>real sz / real chunkSize\<rceil>)"

subsection \<open>Batches of \<^verbatim>\<open>handleSendQueuedFiles\<close>\<close>




text \<open>
  The loop over the batches with \<^verbatim>\<open>await Promise.all(batch.map(sendFile))\<close>, as a
  scheduler. Its state is the list of the transfers that were started, each with the
  effects it still has to perform and whether its promise rejects in the end, and the
  batches that wait. A job is a queued file with the identifier that
  \<^verbatim>\<open>generateTransferId\<close> returns for it.
  \<^item> Any started transfer that has an effect left may perform it next: the transfers of
    a batch run concurrently, each keeping the order of its own effects. The schedules
    JavaScript can produce are among these.
  \<^item> The next batch starts only when every started transfer has finished and none has
    rejected.
  \<^item> The function ends when all have finished and no batch waits, or one has rejected:
    \<^verbatim>\<open>Promise.all\<close> then rejects, the \<^verbatim>\<open>await\<close> throws and the loop is left, while the
    other transfers of the batch still run to their end.
  The last argument is the sequence of the effects performed from that state on.
\<close>

inductive schedule ::
  "emit_faults \<Rightarrow> string \<Rightarrow> (step list \<times> bool) list \<Rightarrow> (string \<times> QueuedFile) list list
     \<Rightarrow> step list \<Rightarrow> bool" where
  stop: "\<forall>t \<in> set started. fst t = [] \<Longrightarrow> waiting = [] \<or> (\<exists>t \<in> set started. snd t)
         \<Longrightarrow> schedule faults room started waiting []"
| run: "k < length started \<Longrightarrow> started ! k = (x # rest, rejects)
        \<Longrightarrow> schedule faults room (started[k := (rest, rejects)]) waiting tr
        \<Longrightarrow> schedule faults room started waiting (x # tr)"
| next_batch: "\<forall>t \<in> set started. fst t = [] \<and> \<not> snd t
        \<Longrightarrow> schedule faults room (map (\<lambda>(tid, queued). sendFile faults room tid queued) b) bs tr
        \<Longrightarrow> schedule faults room started (b # bs) tr"





text \<open>
  A transfer fails in mid-stream: inside the \<^verbatim>\<open>try\<close> block, from a chunk index on, a
  read fails or the emit of a chunk or of \<^verbatim>\<open>file:complete\<close> throws.
\<close>

definition failsFrom :: "emit_faults \<Rightarrow> string \<Rightarrow> string \<Rightarrow> File \<Rightarrow> nat \<Rightarrow> nat \<Rightarrow> bool" where
  "failsFrom faults room tid file count chunkIndex =
     ((\<exists>j < count. chunkIndex \<le> j \<and>
         (readFault file j \<noteq> None
          \<or> emitFault faults (FileChunk room tid j (chunkBuffer file j)) \<noteq> None))
      \<or> emitFault faults (FileComplete room tid) \<noteq> None)"

definition failsMidStream :: "emit_faults \<Rightarrow> string \<Rightarrow> string \<Rightarrow> QueuedFile \<Rightarrow> bool" where
  "failsMidStream faults room tid queued =
     failsFrom faults room tid (queued_file queued)
       (totalChunksOf (length (file_bytes (queued_file queued)))) 0"


subsection \<open>Notions for the proofs about the sender\<close>





section \<open>Folder Aggregator: \<^verbatim>\<open>folderGroups\<close> and \<^verbatim>\<open>handleSaveFolder\<close>\<close>

text \<open>An entry of the \<^verbatim>\<open>groups\<close> map: \<^verbatim>\<open>{ folderName, files }\<close>.\<close>

record FolderGroup =
  folderName :: string
  files :: "IncomingTransfer list"

text \<open>\<^verbatim>\<open>const [rootFolder] = relativePath.split("/")\<close>: the text before the first slash.\<close>

definition firstSegment :: "string \<Rightarrow> string" where
  "firstSegment path = takeWhile (\<lambda>c. c \<noteq> CHR ''/'') path"

text \<open>
  \<^verbatim>\<open>groups.get(rootFolder) ?? { folderName: rootFolder, files: [] }\<close>, \<^verbatim>\<open>files.push\<close> and
  \<^verbatim>\<open>groups.set\<close>: the map keeps its keys in insertion order, and a key that is present
  keeps its place.
\<close>

fun pushToGroup :: "string \<Rightarrow> IncomingTransfer \<Rightarrow> FolderGroup list \<Rightarrow> FolderGroup list" where
  "pushToGroup rootFolder transfer [] = [\<lparr>folderName = rootFolder, files = [transfer]\<rparr>]"
| "pushToGroup rootFolder transfer (g # gs) =
     (if folderName g = rootFolder then g\<lparr>files := files g @ [transfer]\<rparr> # gs
      else g # pushToGroup rootFolder transfer gs)"

text \<open>The body of \<^verbatim>\<open>incomingFiles.forEach\<close>; an empty string is falsy.\<close>

definition groupTransfer :: "IncomingTransfer \<Rightarrow> FolderGroup list \<Rightarrow> FolderGroup list" where
  "groupTransfer transfer groups =
     (case relativePath (meta transfer) of
        None \<Rightarrow> groups
      | Some path \<Rightarrow>
          if path = [] then groups
          else if firstSegment path = [] then groups
          else pushToGroup (firstSegment path) transfer groups)"

definition folderGroups :: "IncomingTransfer list \<Rightarrow> FolderGroup list" where
  "folderGroups incoming = fold groupTransfer incoming []"

text \<open>
  \<^verbatim>\<open>handleSaveFolder\<close> up to the point where saving starts: it sets
  \<^verbatim>\<open>folderActionMessage\<close> and returns, or goes on to save the files of the group (as a ZIP
  archive or into a chosen directory).
\<close>

datatype save_outcome = Refused string | Saves FolderGroup

definition handleSaveFolder :: "string \<Rightarrow> IncomingTransfer list \<Rightarrow> save_outcome" where
  "handleSaveFolder requested incoming =
     (case find (\<lambda>group. folderName group = requested) (folderGroups incoming) of
        None \<Rightarrow> Refused ''Folder tidak ditemukan dalam antrian penerimaan.''
      | Some targetGroup \<Rightarrow>
          if list_ex (\<lambda>file. status file \<noteq> IComplete \<or> blob file = None) (files targetGroup)
          then Refused ''Pastikan semua berkas dalam folder selesai diterima sebelum menyimpan.''
          else Saves targetGroup)"

text \<open>
  What \<^verbatim>\<open>folderGroups\<close> maintains while it walks over the transfers \<open>xs\<close> seen so far:
  the folder names are distinct and non-empty, a group holds exactly the transfers seen
  whose relative path starts with its name, and every non-empty first segment seen has
  its group.
\<close>

definition groupsOf :: "FolderGroup list \<Rightarrow> IncomingTransfer list \<Rightarrow> bool" where
  "groupsOf gs xs \<longleftrightarrow>
     distinct (map folderName gs) \<and>
     (\<forall>g \<in> set gs. folderName g \<noteq> [] \<and>
        files g = filter (\<lambda>t. map_option firstSegment (relativePath (meta t)) = Some (folderName g)) xs) \<and>
     (\<forall>t \<in> set xs. \<forall>path. relativePath (meta t) = Some path \<longrightarrow> firstSegment path \<noteq> [] \<longrightarrow>
        firstSegment path \<in> folderName ` set gs)"

section \<open>Room Registry: the \<^verbatim>\<open>room:join\<close> handler of pages/api/socket/file-share.ts\<close>

text \<open>A JavaScript string: its UTF-16 code units.\<close>

type_synonym js_string = "16 word list"

text \<open>
  The \<^verbatim>\<open>roomId\<close> that the handler finds in its payload: a string, or a value of another
  type (a number, \<^verbatim>\<open>undefined\<close> when the payload has no such field, an object).
\<close>

datatype room_value = StringValue js_string | OtherValueType

text \<open>
  What a client sends with \<^verbatim>\<open>room:join\<close>: a payload whose \<^verbatim>\<open>roomId\<close> can be read, or no
  payload (\<^verbatim>\<open>undefined\<close> or \<^verbatim>\<open>null\<close>).
\<close>

datatype join_payload = Payload room_value | NoPayload

text \<open>
  The code units \<^verbatim>\<open>String.prototype.trim\<close> strips: the white space and the line
  terminators of ECMAScript.
\<close>

definition isWhiteSpace :: "16 word \<Rightarrow> bool" where
  "isWhiteSpace c =
     (c \<in> {0x0009, 0x000A, 0x000B, 0x000C, 0x000D, 0x0020, 0x00A0, 0x1680,
            0x2000, 0x2001, 0x2002, 0x2003, 0x2004, 0x2005, 0x2006, 0x2007, 0x2008, 0x2009, 0x200A,
            0x2028, 0x2029, 0x202F, 0x205F, 0x3000, 0xFEFF})"

definition trim :: "js_string \<Rightarrow> js_string" where
  "trim s = rev (dropWhile isWhiteSpace (rev (dropWhile isWhiteSpace s)))"

text \<open>The events the relay sends for room membership, with the \<^verbatim>\<open>roomId\<close> they carry.\<close>

datatype room_event = RoomJoined js_string | PeerJoined js_string | PeerLeft js_string

text \<open>
  The rooms of the socket.io adapter: for every room name the set of connections in it.
  What a handler sends is given per connection: the events that connection receives, in
  order.
\<close>

record relay =
  rooms :: "js_string \<Rightarrow> string set"

type_synonym deliveries = "string \<Rightarrow> room_event list"

text \<open>
  \<^verbatim>\<open>client.on("room:join", ({ roomId }) => ...)\<close>. The parameter pattern reads \<^verbatim>\<open>roomId\<close>
  from the payload before the body runs and throws a \<^verbatim>\<open>TypeError\<close> when there is no
  payload; nothing catches it. In the body \<^verbatim>\<open>client.join\<close> adds the connection to the room,
  \<^verbatim>\<open>client.emit\<close> sends to the connection itself, and \<^verbatim>\<open>client.to(roomId).emit\<close> sends to
  every connection in the room but the sender.
\<close>

definition roomJoin :: "string \<Rightarrow> join_payload \<Rightarrow> relay \<Rightarrow> js_error + relay \<times> deliveries" where
  "roomJoin client payload st =
     (case payload of
        NoPayload \<Rightarrow> Inl TypeError
      | Payload roomId \<Rightarrow>
          (case roomId of
             OtherValueType \<Rightarrow> Inr (st, \<lambda>c. [])
           | StringValue r \<Rightarrow>
               if trim r = [] then Inr (st, \<lambda>c. [])
               else
                 (let joined = st\<lparr>rooms := (rooms st)(r := insert client (rooms st r))\<rparr>
                  in Inr (joined,
                          \<lambda>c. (if c = client then [RoomJoined r] else [])
                               @ (if c \<in> rooms joined r \<and> c \<noteq> client
                                  then [PeerJoined r] else [])))))"

text \<open>
  \<^verbatim>\<open>client.on("file:meta", (payload) => ...)\<close>, the first of the four relaying handlers:
  \<^verbatim>\<open>const { roomId } = payload ?? {}\<close> reads from an empty object when there is no payload,
  so the handler returns without relaying. The result is the set of connections the
  message is relayed to.
\<close>

definition relayFileMeta :: "string \<Rightarrow> join_payload \<Rightarrow> relay \<Rightarrow> string set" where
  "relayFileMeta client payload st =
     (case (case payload of NoPayload \<Rightarrow> OtherValueType | Payload roomId \<Rightarrow> roomId) of
        OtherValueType \<Rightarrow> {}
      | StringValue r \<Rightarrow> if trim r = [] then {} else rooms st r - {client})"

section \<open>Invariant of the receiver\<close>

text \<open>
  A transfer whose status is complete or error has no slot buffer registered: both
  handlers that set these statuses delete the buffer.
\<close>

definition terminalReleased :: "receiver \<Rightarrow> bool" where
  "terminalReleased st =
     list_all (\<lambda>t. (status t = IComplete \<or> status t = IError)
                    \<longrightarrow> incomingBuffers st (transferId (meta t)) = None)
              (incomingFiles st)"

fun isFileMeta :: "message \<Rightarrow> bool" where
  "isFileMeta (FileMeta room m) = True"
| "isFileMeta other = False"

fun isFileErrorFor :: "string \<Rightarrow> message \<Rightarrow> bool" where
  "isFileErrorFor tid (FileError room tid' msg) = (tid' = tid)"
| "isFileErrorFor tid other = False"

section \<open>Chunk arithmetic\<close>

lemma ceil_div_nat:
  assumes "0 < c"
  shows "nat \<lceil>real n / real c\<rceil> = (n + c - 1) div c"
proof -
  define q where "q = (n + c - 1) div c"
  define r where "r = (n + c - 1) mod c"
  have d: "n + c - 1 = q * c + r" by (simp add: q_def r_def)
  have r: "r < c" using assms by (simp add: r_def)
  have up: "n \<le> q * c" using d r by linarith
  have lo: "0 < n \<Longrightarrow> (q - 1) * c < n \<and> 0 < q"
  proof -
    assume n: "0 < n"
    have "0 < q" using n assms by (simp add: q_def div_greater_zero_iff)
    moreover have "(q - 1) * c + c = q * c" using \<open>0 < q\<close> by (cases q) auto
    ultimately show ?thesis using d r n by linarith
  qed
  have "\<lceil>real n / real c\<rceil> = int q"
  proof (cases "n = 0")
    case True
    then show ?thesis using assms by (simp add: q_def)
  next
    case False
    then have n: "0 < n" by simp
    from lo [OF n] have a: "(q - 1) * c < n" and qp: "0 < q" by auto
    have "real ((q - 1) * c) < real n" using a by (simp only: of_nat_less_iff)
    then have 1: "real q - 1 < real n / real c"
      using assms qp by (simp add: pos_less_divide_eq of_nat_diff)
    have "real n \<le> real (q * c)" using up by (simp only: of_nat_le_iff)
    then have 2: "real n / real c \<le> real q"
      using assms by (simp add: pos_divide_le_eq)
    show ?thesis
      by (rule ceiling_unique) (use 1 2 in simp_all)
  qed
  then show ?thesis by (simp add: q_def)
qed

lemma FILE_CHUNK_SIZE_pos: "0 < FILE_CHUNK_SIZE"
  by (simp add: FILE_CHUNK_SIZE_def)

lemma totalChunksOf_div:
  "totalChunksOf sz = (if sz = 0 then 1 else (sz + FILE_CHUNK_SIZE - 1) div FILE_CHUNK_SIZE)"
proof -
  define q where "q = (sz + FILE_CHUNK_SIZE - 1) div FILE_CHUNK_SIZE"
  have t: "totalChunksOf sz = (if q = 0 then 1 else q)"
    unfolding totalChunksOf_def ceil_div_nat [OF FILE_CHUNK_SIZE_pos] Let_def q_def ..
  show ?thesis
  proof (cases "sz = 0")
    case True
    then have "q = 0" using FILE_CHUNK_SIZE_pos by (simp add: q_def)
    with True t show ?thesis by simp
  next
    case False
    then have "0 < q"
      using FILE_CHUNK_SIZE_pos by (simp add: q_def div_greater_zero_iff)
    with False t show ?thesis by (simp add: q_def)
  qed
qed

lemma totalChunksOf_pos: "1 \<le> totalChunksOf sz"
proof -
  have "1 \<le> (if c = 0 then 1 else c)" for c :: nat by simp
  then show ?thesis unfolding totalChunksOf_def Let_def .
qed

lemma totalChunksOf_covers: "sz \<le> totalChunksOf sz * FILE_CHUNK_SIZE"
proof (cases "sz = 0")
  case True
  then show ?thesis by simp
next
  case False
  have "sz + FILE_CHUNK_SIZE - 1 < ((sz + FILE_CHUNK_SIZE - 1) div FILE_CHUNK_SIZE + 1) * FILE_CHUNK_SIZE"
    using FILE_CHUNK_SIZE_pos by (metis Suc_eq_plus1 dividend_less_div_times mult.commute mult_Suc)
  then show ?thesis using False FILE_CHUNK_SIZE_pos by (simp add: totalChunksOf_div)
qed

lemma chunkBuffer_take_drop:
  "chunkBuffer file i = take FILE_CHUNK_SIZE (drop (i * FILE_CHUNK_SIZE) (file_bytes file))"
  by (cases "i * FILE_CHUNK_SIZE \<le> length (file_bytes file)")
    (simp_all add: chunkBuffer_def blobSlice_def Let_def min_def)

lemma chunkBuffer_range:
  "take (min ((i + 1) * FILE_CHUNK_SIZE) (length (file_bytes file)) - i * FILE_CHUNK_SIZE)
     (drop (i * FILE_CHUNK_SIZE) (file_bytes file)) = chunkBuffer file i"
  unfolding chunkBuffer_take_drop
  by (cases "(i + 1) * FILE_CHUNK_SIZE \<le> length (file_bytes file)") (simp_all add: min_def)

lemma concat_chunks:
  "concat (map (\<lambda>i. take c (drop (i * c) bytes)) [0..<k]) = take (k * c) bytes"
proof (induction k)
  case 0
  show ?case by simp
next
  case (Suc k)
  have "take (k * c + c) bytes = take (k * c) bytes @ take c (drop (k * c) bytes)"
    by (rule take_add)
  with Suc show ?case by (simp add: add.commute)
qed

lemma concat_chunkBuffers:
  "concat (map (chunkBuffer file) [0..<totalChunksOf (length (file_bytes file))]) = file_bytes file"
proof -
  have "chunkBuffer file = (\<lambda>i. take FILE_CHUNK_SIZE (drop (i * FILE_CHUNK_SIZE) (file_bytes file)))"
    by (rule ext) (rule chunkBuffer_take_drop)
  then show ?thesis
    using totalChunksOf_covers [of "length (file_bytes file)"]
    by (simp only: concat_chunks) simp
qed

section \<open>Slot buffers\<close>

lemma orderedChunks_Some: "orderedChunks (map (\<lambda>i. Some (c i)) xs) = map c xs"
  by (induction xs) simp_all

lemma orderedChunks_filter:
  "orderedChunks xs = map the (filter (\<lambda>slot. slot \<noteq> None) xs)"
  by (induction xs rule: orderedChunks.induct) simp_all

lemma arrayStore_get:
  "arrayGet (arrayStore buffers i chunk) j = (if j = i then Some chunk else arrayGet buffers j)"
  by (auto simp: arrayStore_def arrayGet_def nth_append nth_list_update)

lemma arrayStore_elements:
  "elements (arrayStore buffers i chunk) =
     (if i < MAX_ARRAY_LENGTH then
        (if i < length (elements buffers) then (elements buffers)[i := Some chunk]
         else elements buffers @ replicate (i - length (elements buffers)) None @ [Some chunk])
      else elements buffers)"
  by (simp add: arrayStore_def)

lemma arrayStore_overwrite:
  "arrayStore (arrayStore buffers i chunk) i chunk' = arrayStore buffers i chunk'"
  by (simp add: arrayStore_def list_update_append)

section \<open>The effects of one transfer\<close>

lemma sendChunks_done:
  "\<not> i < count \<Longrightarrow>
   sendChunks faults room tid f count i =
     (case emitFault faults (FileComplete room tid) of
        Some err \<Rightarrow> catchBlock faults room tid err
      | None \<Rightarrow> ([Emit (FileComplete room tid), SetComplete tid], False))"
  by (subst sendChunks.simps) simp



lemma sendChunks_next:
  "i < count \<Longrightarrow> readFault f i = None \<Longrightarrow>
   emitFault faults (FileChunk room tid i (chunkBuffer f i)) = None \<Longrightarrow>
   sendChunks faults room tid f count i =
     (Emit (FileChunk room tid i (chunkBuffer f i)) # SetSending tid (i + 1)
        # fst (sendChunks faults room tid f count (i + 1)),
      snd (sendChunks faults room tid f count (i + 1)))"
  by (subst sendChunks.simps) (simp add: apfst_def map_prod_def case_prod_beta)




lemma failsFrom_done:
  "\<not> i < count \<Longrightarrow>
   failsFrom faults room tid f count i \<longleftrightarrow> emitFault faults (FileComplete room tid) \<noteq> None"
  by (auto simp: failsFrom_def)

lemma failsFrom_here:
  "i < count \<Longrightarrow>
   readFault f i \<noteq> None \<or> emitFault faults (FileChunk room tid i (chunkBuffer f i)) \<noteq> None \<Longrightarrow>
   failsFrom faults room tid f count i"
  unfolding failsFrom_def by blast

lemma failsFrom_next:
  assumes "readFault f i = None" "emitFault faults (FileChunk room tid i (chunkBuffer f i)) = None"
  shows "failsFrom faults room tid f count i \<longleftrightarrow> failsFrom faults room tid f count (i + 1)"
proof -
  let ?bad = "\<lambda>j. readFault f j \<noteq> None
                 \<or> emitFault faults (FileChunk room tid j (chunkBuffer f j)) \<noteq> None"
  have "(\<exists>j < count. i \<le> j \<and> ?bad j) \<longleftrightarrow> (\<exists>j < count. i + 1 \<le> j \<and> ?bad j)"
  proof
    assume "\<exists>j < count. i \<le> j \<and> ?bad j"
    then obtain j where j: "j < count" "i \<le> j" "?bad j" by blast
    with assms have "j \<noteq> i" by auto
    with j show "\<exists>j < count. i + 1 \<le> j \<and> ?bad j" by (intro exI [of _ j]) simp
  next
    assume "\<exists>j < count. i + 1 \<le> j \<and> ?bad j"
    then obtain j where "j < count" "i + 1 \<le> j" "?bad j" by blast
    then show "\<exists>j < count. i \<le> j \<and> ?bad j" by (intro exI [of _ j]) simp
  qed
  then show ?thesis unfolding failsFrom_def by (rule arg_cong [where f = "\<lambda>b. b \<or> _"])
qed


lemma sendChunks_success:
  "\<not> failsFrom faults room tid f count i \<Longrightarrow>
   sendChunks faults room tid f count i =
     (concat (map (\<lambda>j. [Emit (FileChunk room tid j (chunkBuffer f j)), SetSending tid (j + 1)]) [i..<count])
      @ [Emit (FileComplete room tid), SetComplete tid], False)"
proof (induction "count - i" arbitrary: i)
  case 0
  then have fin: "\<not> i < count" by simp
  with "0.prems" have "emitFault faults (FileComplete room tid) = None"
    by (simp add: failsFrom_done)
  with fin show ?case by (simp add: sendChunks_done)
next
  case (Suc n)
  then have lt: "i < count" and n: "n = count - (i + 1)" by simp_all
  have "\<not> (readFault f i \<noteq> None
            \<or> emitFault faults (FileChunk room tid i (chunkBuffer f i)) \<noteq> None)"
    using Suc.prems failsFrom_here [OF lt, of f faults room tid] by blast
  then have r: "readFault f i = None"
    and e: "emitFault faults (FileChunk room tid i (chunkBuffer f i)) = None" by blast+
  from Suc.prems failsFrom_next [OF r e, of count]
  have "\<not> failsFrom faults room tid f count (i + 1)" by simp
  from Suc.hyps(1) [OF n this]
  have ih: "sendChunks faults room tid f count (i + 1) =
     (concat (map (\<lambda>j. [Emit (FileChunk room tid j (chunkBuffer f j)), SetSending tid (j + 1)]) [i + 1..<count])
      @ [Emit (FileComplete room tid), SetComplete tid], False)" .
  have up: "[i..<count] = i # [i + 1..<count]" using lt by (simp add: upt_conv_Cons)
  show ?case
    using ih by (simp add: sendChunks_next [OF lt r e] up)
qed

lemma messagesOf_append: "messagesOf (xs @ ys) = messagesOf xs @ messagesOf ys"
  by (induction xs rule: messagesOf.induct) simp_all

lemma messagesOf_chunk_steps:
  "messagesOf (concat (map (\<lambda>j. [Emit (c j), SetSending tid (j + 1)]) xs)) = map c xs"
  by (induction xs) simp_all

lemma sendFile_success:
  assumes "emitFault faults (FileMeta room (metaOf tid queued)) = None"
    and "\<not> failsMidStream faults room tid queued"
  shows "sendFile faults room tid queued =
     ([SetPending (metaOf tid queued), Emit (FileMeta room (metaOf tid queued))]
      @ concat (map (\<lambda>j. [Emit (FileChunk room tid j (chunkBuffer (queued_file queued) j)),
                           SetSending tid (j + 1)])
                  [0..<totalChunksOf (length (file_bytes (queued_file queued)))])
      @ [Emit (FileComplete room tid), SetComplete tid]
      @ [Unqueue (queued_id queued)], False)"
  using assms sendChunks_success [of faults room tid "queued_file queued"
      "totalChunksOf (length (file_bytes (queued_file queued)))" 0]
  by (simp add: sendFile_def failsMidStream_def)


section \<open>Reception of the messages of a transfer\<close>

lemma filter_map_same_key:
  assumes "\<And>x. key (g x) = key x"
  shows "filter (\<lambda>x. key x = k) (map g xs) = map g (filter (\<lambda>x. key x = k) xs)"
  by (induction xs) (simp_all add: assms)

lemma map_filter_untouched:
  assumes "\<And>x. P x \<Longrightarrow> g x = x"
  shows "map g (filter P xs) = filter P xs"
  by (induction xs) (simp_all add: assms)

lemma handle_other_transfer:
  assumes "messageTransfer msg \<noteq> tid"
  shows "incomingBuffers (handle msg st) tid = incomingBuffers st tid"
    and "filter (\<lambda>t. transferId (meta t) = tid) (incomingFiles (handle msg st))
         = filter (\<lambda>t. transferId (meta t) = tid) (incomingFiles st)"
proof -
  show "incomingBuffers (handle msg st) tid = incomingBuffers st tid"
    using assms
    by (cases msg)
      (auto simp: handleFileMeta_def handleFileChunk_def handleFileComplete_def handleFileError_def
        Let_def split: sum.splits option.splits)
  show "filter (\<lambda>t. transferId (meta t) = tid) (incomingFiles (handle msg st))
         = filter (\<lambda>t. transferId (meta t) = tid) (incomingFiles st)"
  proof (cases msg)
    case (FileMeta room m)
    with assms have ne: "transferId m \<noteq> tid" by simp
    have "filter (\<lambda>t. transferId (meta t) = tid)
            (filter (\<lambda>item. transferId (meta item) \<noteq> transferId m) (incomingFiles st))
          = filter (\<lambda>t. transferId (meta t) = tid) (incomingFiles st)"
      using ne by (simp add: conj_commute) (metis (mono_tags, lifting) filter_cong)
    with FileMeta ne show ?thesis
      by (simp add: handleFileMeta_def split: sum.splits)
  next
    case (FileChunk room tid' i chunk)
    with assms have ne: "tid' \<noteq> tid" by simp
    show ?thesis
      unfolding FileChunk
      using ne
      by (simp add: handleFileChunk_def filter_map_same_key [where key = "\<lambda>t. transferId (meta t)"]
          map_filter_untouched split: option.splits)
  next
    case (FileComplete room tid')
    with assms have ne: "tid' \<noteq> tid" by simp
    show ?thesis
      unfolding FileComplete
      using ne
      by (simp add: handleFileComplete_def Let_def
          filter_map_same_key [where key = "\<lambda>t. transferId (meta t)"]
          map_filter_untouched split: option.splits)
  next
    case (FileError room tid' text_of_sender)
    with assms have ne: "tid' \<noteq> tid" by simp
    show ?thesis
      unfolding FileError
      using ne
      by (simp add: handleFileError_def
          filter_map_same_key [where key = "\<lambda>t. transferId (meta t)"]
          map_filter_untouched)
  qed
qed

lemma receiveAll_other_transfers:
  "\<forall>msg \<in> set msgs. messageTransfer msg \<noteq> tid \<Longrightarrow>
   incomingBuffers (receiveAll msgs st) tid = incomingBuffers st tid
   \<and> filter (\<lambda>t. transferId (meta t) = tid) (incomingFiles (receiveAll msgs st))
       = filter (\<lambda>t. transferId (meta t) = tid) (incomingFiles st)"
  unfolding receiveAll_def
  by (induction msgs arbitrary: st) (simp_all add: handle_other_transfer)

lemma deliver_chunks:
  assumes n: "n \<le> MAX_ARRAY_LENGTH"
    and m: "transferId m = tid"
  shows "\<forall>msg \<in> set msgs. messageTransfer msg = tid \<longrightarrow> (\<exists>i < n. msg = FileChunk room tid i (c i)) \<Longrightarrow>
     incomingBuffers st tid = Some buf \<Longrightarrow>
     elements buf = map (\<lambda>i. if FileChunk room tid i (c i) \<in> set seen then Some (c i) else None) [0..<n] \<Longrightarrow>
     filter (\<lambda>t. transferId (meta t) = tid) (incomingFiles st) = [e] \<Longrightarrow> meta e = m \<Longrightarrow>
     \<exists>buf' e'. incomingBuffers (receiveAll msgs st) tid = Some buf'
        \<and> elements buf' = map (\<lambda>i. if FileChunk room tid i (c i) \<in> set (seen @ msgs)
                                     then Some (c i) else None) [0..<n]
        \<and> filter (\<lambda>t. transferId (meta t) = tid) (incomingFiles (receiveAll msgs st)) = [e']
        \<and> meta e' = m"
proof (induction msgs arbitrary: st buf e seen)
  case Nil
  then show ?case by (simp add: receiveAll_def)
next
  case (Cons msg msgs)
  have r: "receiveAll (msg # msgs) st = receiveAll msgs (handle msg st)"
    by (simp add: receiveAll_def)
  from Cons.prems(1) have rest:
    "\<forall>msg \<in> set msgs. messageTransfer msg = tid \<longrightarrow> (\<exists>i < n. msg = FileChunk room tid i (c i))"
    by simp
  show ?case
  proof (cases "messageTransfer msg = tid")
    case False
    then have same: "\<And>i. FileChunk room tid i (c i) \<in> set (seen @ [msg])
                       \<longleftrightarrow> FileChunk room tid i (c i) \<in> set seen"
      by auto
    have b: "incomingBuffers (handle msg st) tid = Some buf"
      using handle_other_transfer(1) [OF False] Cons.prems(2) by simp
    have f: "filter (\<lambda>t. transferId (meta t) = tid) (incomingFiles (handle msg st)) = [e]"
      using handle_other_transfer(2) [OF False] Cons.prems(4) by simp
    have el: "elements buf = map (\<lambda>i. if FileChunk room tid i (c i) \<in> set (seen @ [msg])
                                         then Some (c i) else None) [0..<n]"
      using Cons.prems(3) by (simp only: same)
    from Cons.IH [OF rest b el f Cons.prems(5)] show ?thesis
      unfolding r by simp
  next
    case True
    with Cons.prems(1) obtain i where i: "i < n" and msg: "msg = FileChunk room tid i (c i)"
      by auto
    have len: "length (elements buf) = n" using Cons.prems(3) by simp
    have imax: "i < MAX_ARRAY_LENGTH" using i n by simp
    let ?buf = "arrayStore buf i (c i)"
    let ?e = "e\<lparr>receivedBytes := receivedBytes e + length (c i),
                  receivedChunks := receivedChunks e + 1,
                  status := IReceiving\<rparr>"
    have b: "incomingBuffers (handle msg st) tid = Some ?buf"
      using Cons.prems(2) by (simp add: msg handleFileChunk_def)
    have "elements ?buf = (elements buf)[i := Some (c i)]"
      using i len imax by (simp add: arrayStore_def)
    also have "\<dots> = map (\<lambda>j. if FileChunk room tid j (c j) \<in> set (seen @ [msg])
                                 then Some (c j) else None) [0..<n]"
      using i by (auto simp: Cons.prems(3) msg list_eq_iff_nth_eq nth_list_update)
    finally have el: "elements ?buf = map (\<lambda>j. if FileChunk room tid j (c j) \<in> set (seen @ [msg])
                                 then Some (c j) else None) [0..<n]" .
    have "filter (\<lambda>t. transferId (meta t) = tid) (incomingFiles (handle msg st))
          = map (\<lambda>incoming.
                      if transferId (meta incoming) \<noteq> tid then incoming
                      else incoming\<lparr>receivedBytes := receivedBytes incoming + length (c i),
                                    receivedChunks := receivedChunks incoming + 1,
                                    status := IReceiving\<rparr>)
              (filter (\<lambda>t. transferId (meta t) = tid) (incomingFiles st))"
      using Cons.prems(2)
      by (simp add: msg handleFileChunk_def filter_map_same_key [where key = "\<lambda>t. transferId (meta t)"])
    then have f: "filter (\<lambda>t. transferId (meta t) = tid) (incomingFiles (handle msg st)) = [?e]"
      using Cons.prems(4,5) m by simp
    have me: "meta ?e = m" using Cons.prems(5) by simp
    from Cons.IH [OF rest b el f me] show ?thesis
      unfolding r by simp
  qed
qed

lemma receive_unregistered:
  "incomingBuffers st tid = None \<Longrightarrow>
   \<forall>msg \<in> set msgs. (\<exists>room i chunk. msg = FileChunk room tid i chunk) \<or> (\<exists>room. msg = FileComplete room tid) \<Longrightarrow>
   receiveAll msgs st = st"
  unfolding receiveAll_def
  by (induction msgs) (auto simp: handleFileChunk_def handleFileComplete_def)

lemma messagesOf_sendFile_success:
  assumes "emitFault faults (FileMeta room (metaOf tid queued)) = None"
    and "\<not> failsMidStream faults room tid queued"
  shows "messagesOf (fst (sendFile faults room tid queued)) =
           FileMeta room (metaOf tid queued)
           # map (\<lambda>i. FileChunk room tid i (chunkBuffer (queued_file queued) i))
               [0..<totalChunks (metaOf tid queued)]
           @ [FileComplete room tid]"
  using messagesOf_chunk_steps [of "\<lambda>j. FileChunk room tid j (chunkBuffer (queued_file queued) j)" tid
      "[0..<totalChunksOf (length (file_bytes (queued_file queued)))]"]
  by (simp add: sendFile_success [OF assms] messagesOf_append metaOf_def)

section \<open>Properties of the specification: the receiver\<close>

text \<open>
  \<^bold>\<open>C1\<close> (round trip), for files whose count of chunks is an array length. Take a queued
  file whose \<^verbatim>\<open>file:meta\<close> can be sent, whose transfer does not fail in mid-stream, and whose
  \<open>totalChunks\<close> is at most \<open>2^32 - 1\<close>. Chunk \<open>i\<close> is the byte range
  \<open>[i * C, min ((i + 1) * C, s))\<close> of the file, with \<open>C\<close> = 512 KiB and \<open>s\<close> the size, and
  \<^verbatim>\<open>sendFile\<close> emits the meta, the chunks \<open>0 .. totalChunks - 1\<close> in this order, and the
  completion. Let a receiver in any state handle the meta; then, in any order, repeated or
  not, and mixed with any messages of other transfers, chunk messages of this transfer, each
  chunk at least once; then the completion; then any messages of other transfers. It then
  holds exactly one transfer under the identifier: with the meta of the sender, complete,
  and with the bytes of the file as its payload. The size \<open>0\<close> is included (one empty
  chunk).
\<close>

theorem chunked_transfer_round_trip:
  assumes "emitFault faults (FileMeta room (metaOf tid queued)) = None"
    and "\<not> failsMidStream faults room tid queued"
    and "totalChunks (metaOf tid queued) \<le> MAX_ARRAY_LENGTH"
    and "\<forall>i < totalChunks (metaOf tid queued).
           FileChunk room tid i (chunkBuffer (queued_file queued) i) \<in> set between"
    and "\<forall>msg \<in> set between. messageTransfer msg = tid \<longrightarrow>
           (\<exists>i < totalChunks (metaOf tid queued).
              msg = FileChunk room tid i (chunkBuffer (queued_file queued) i))"
    and "\<forall>msg \<in> set later. messageTransfer msg \<noteq> tid"
  shows "(\<forall>i. chunkBuffer (queued_file queued) i =
              take (min ((i + 1) * (512 * 1024)) (length (file_bytes (queued_file queued)))
                      - i * (512 * 1024))
                (drop (i * (512 * 1024)) (file_bytes (queued_file queued))))
         \<and> messagesOf (fst (sendFile faults room tid queued)) =
             FileMeta room (metaOf tid queued)
             # map (\<lambda>i. FileChunk room tid i (chunkBuffer (queued_file queued) i))
                 [0..<totalChunks (metaOf tid queued)]
             @ [FileComplete room tid]
         \<and> map (\<lambda>t. (meta t, status t, blob t))
             (filter (\<lambda>t. transferId (meta t) = tid)
                (incomingFiles
                   (receiveAll (FileMeta room (metaOf tid queued) # between
                                @ FileComplete room tid # later) st)))
           = [(metaOf tid queued, IComplete, Some (file_bytes (queued_file queued)))]"
proof -
  let ?f = "queued_file queued"
  let ?m = "metaOf tid queued"
  let ?n = "totalChunks ?m"
  let ?c = "chunkBuffer ?f"
  let ?key = "\<lambda>t. transferId (meta t) = tid"
  have tm: "transferId ?m = tid" and tn: "?n = totalChunksOf (length (file_bytes ?f))"
    by (simp_all add: metaOf_def)
  have range: "\<forall>i. ?c i = take (min ((i + 1) * (512 * 1024)) (length (file_bytes ?f)) - i * (512 * 1024))
                (drop (i * (512 * 1024)) (file_bytes ?f))"
    using chunkBuffer_range [of _ ?f] by (simp add: FILE_CHUNK_SIZE_def)
  note sent = messagesOf_sendFile_success [OF assms(1,2)]
  let ?st1 = "handle (FileMeta room ?m) st"
  let ?e = "\<lparr>meta = ?m, receivedBytes = 0, receivedChunks = 0, status = IPending,
               errorMessage = None, downloadUrl = None, blob = None\<rparr>"
  let ?buf = "\<lparr>elements = replicate ?n None, properties = Map.empty\<rparr>"
  have st1: "?st1 = st\<lparr>incomingBuffers := (incomingBuffers st)(tid \<mapsto> ?buf),
                  incomingFiles := filter (\<lambda>item. transferId (meta item) \<noteq> tid) (incomingFiles st) @ [?e]\<rparr>"
    using assms(3) by (simp add: handleFileMeta_def newArray_def tm)
  have b1: "incomingBuffers ?st1 tid = Some ?buf" unfolding st1 by simp
  have el1: "elements ?buf = map (\<lambda>i. if FileChunk room tid i (?c i) \<in> set [] then Some (?c i) else None) [0..<?n]"
    by (simp add: map_replicate_const)
  have f1: "filter ?key (incomingFiles ?st1) = [?e]"
    unfolding st1 by (simp add: tm filter_empty_conv)
  have me: "meta ?e = ?m" by simp
  let ?st2 = "receiveAll between ?st1"
  from deliver_chunks [OF assms(3) tm assms(5) b1 el1 f1 me]
  obtain buf' e' where b2: "incomingBuffers ?st2 tid = Some buf'"
    and el2: "elements buf' = map (\<lambda>i. if FileChunk room tid i (?c i) \<in> set ([] @ between)
                                     then Some (?c i) else None) [0..<?n]"
    and f2: "filter ?key (incomingFiles ?st2) = [e']" and me': "meta e' = ?m"
    by blast
  have full: "elements buf' = map (\<lambda>i. Some (?c i)) [0..<?n]"
    unfolding el2 using assms(4) by simp
  have payload: "newBlob (orderedChunks (elements buf')) = file_bytes ?f"
    unfolding full orderedChunks_Some newBlob_def tn by (rule concat_chunkBuffers)
  let ?st3 = "handle (FileComplete room tid) ?st2"
  have "filter ?key (incomingFiles ?st3)
        = map (\<lambda>item. if transferId (meta item) = tid
                          then item\<lparr>status := IComplete,
                                    receivedBytes := size_bytes (meta item),
                                    receivedChunks := totalChunks (meta item),
                                    downloadUrl := Some (urlsCreated ?st2),
                                    blob := Some (file_bytes ?f)\<rparr>
                          else item) (filter ?key (incomingFiles ?st2))"
    using b2 payload
    by (simp add: handleFileComplete_def Let_def
        filter_map_same_key [where key = "\<lambda>t. transferId (meta t)"])
  then have f3: "map (\<lambda>t. (meta t, status t, blob t)) (filter ?key (incomingFiles ?st3))
                 = [(?m, IComplete, Some (file_bytes ?f))]"
    using f2 me' tm by simp
  have all: "receiveAll (FileMeta room ?m # between @ FileComplete room tid # later) st
             = receiveAll later ?st3"
    by (simp add: receiveAll_def)
  have "filter ?key (incomingFiles (receiveAll later ?st3)) = filter ?key (incomingFiles ?st3)"
    using receiveAll_other_transfers [OF assms(6)] by blast
  with f3 all have received: "map (\<lambda>t. (meta t, status t, blob t))
             (filter ?key (incomingFiles
                   (receiveAll (FileMeta room ?m # between @ FileComplete room tid # later) st)))
           = [(?m, IComplete, Some (file_bytes ?f))]"
    by simp
  from range sent received show ?thesis by blast
qed

text \<open>
  A file of two chunks (512 KiB and 2 bytes) whose second chunk arrives first, between the
  messages of another transfer.
\<close>

theorem chunked_transfer_round_trip_witness:
  "messagesOf (fst (sendFile [] ''ab12'' ''t1''
      \<lparr>queued_id = ''q1'',
       queued_file = \<lparr>file_name = ''a.bin'', file_type = ''application/octet-stream'',
                      file_bytes = replicate 524288 1 @ [2, 3], readFaults = []\<rparr>,
       queued_name = ''a.bin'', queued_size = 524290,
       queued_type = ''application/octet-stream'', queued_relativePath = None\<rparr>))
   = [FileMeta ''ab12''
        \<lparr>transferId = ''t1'', name = ''a.bin'', size_bytes = 524290,
         type_mime = ''application/octet-stream'', relativePath = None, totalChunks = 2\<rparr>,
      FileChunk ''ab12'' ''t1'' 0 (replicate 524288 1),
      FileChunk ''ab12'' ''t1'' 1 [2, 3],
      FileComplete ''ab12'' ''t1'']
   \<and> map (\<lambda>t. (meta t, status t, blob t))
       (filter (\<lambda>t. transferId (meta t) = ''t1'')
          (incomingFiles
             (receiveAll
                [FileMeta ''ab12''
                   \<lparr>transferId = ''t1'', name = ''a.bin'', size_bytes = 524290,
                    type_mime = ''application/octet-stream'', relativePath = None,
                    totalChunks = 2\<rparr>,
                 FileMeta ''ab12''
                   \<lparr>transferId = ''t2'', name = ''b.txt'', size_bytes = 1,
                    type_mime = ''text/plain'', relativePath = None, totalChunks = 1\<rparr>,
                 FileChunk ''ab12'' ''t1'' 1 [2, 3],
                 FileChunk ''ab12'' ''t2'' 0 [9],
                 FileChunk ''ab12'' ''t1'' 0 (replicate 524288 1),
                 FileComplete ''ab12'' ''t1'',
                 FileComplete ''ab12'' ''t2'']
                initialReceiver)))
     = [(\<lparr>transferId = ''t1'', name = ''a.bin'', size_bytes = 524290,
          type_mime = ''application/octet-stream'', relativePath = None, totalChunks = 2\<rparr>,
         IComplete, Some (replicate 524288 1 @ [2, 3]))]"
proof -
  let ?f = "\<lparr>file_name = ''a.bin'', file_type = ''application/octet-stream'',
                      file_bytes = replicate 524288 1 @ [2, 3 :: byte], readFaults = []\<rparr>"
  let ?q = "\<lparr>queued_id = ''q1'', queued_file = ?f,
       queued_name = ''a.bin'', queued_size = 524290,
       queued_type = ''application/octet-stream'', queued_relativePath = None\<rparr>"
  let ?between = "[FileMeta ''ab12''
                   \<lparr>transferId = ''t2'', name = ''b.txt'', size_bytes = 1,
                    type_mime = ''text/plain'', relativePath = None, totalChunks = 1\<rparr>,
                 FileChunk ''ab12'' ''t1'' 1 [2, 3],
                 FileChunk ''ab12'' ''t2'' 0 [9],
                 FileChunk ''ab12'' ''t1'' 0 (replicate 524288 1)]"
  let ?later = "[FileComplete ''ab12'' ''t2'']"
  have n: "totalChunksOf 524290 = 2"
    by (simp add: totalChunksOf_div FILE_CHUNK_SIZE_def)
  have m: "metaOf ''t1'' ?q = \<lparr>transferId = ''t1'', name = ''a.bin'', size_bytes = 524290,
          type_mime = ''application/octet-stream'', relativePath = None, totalChunks = 2\<rparr>"
    by (simp add: metaOf_def n)
  have c0: "chunkBuffer ?f 0 = replicate 524288 1"
    by (simp add: chunkBuffer_def blobSlice_def FILE_CHUNK_SIZE_def)
  have c1: "chunkBuffer ?f (Suc 0) = [2, 3]"
    by (simp add: chunkBuffer_def blobSlice_def FILE_CHUNK_SIZE_def)
  have two: "[0..<2] = [0, Suc 0]"
    by (simp add: upt_rec numeral_2_eq_2)
  have h1: "emitFault [] (FileMeta ''ab12'' (metaOf ''t1'' ?q)) = None"
    by (simp add: emitFault_def)
  have h2: "\<not> failsMidStream [] ''ab12'' ''t1'' ?q"
    by (simp add: failsMidStream_def failsFrom_def emitFault_def readFault_def)
  have h3: "totalChunks (metaOf ''t1'' ?q) \<le> MAX_ARRAY_LENGTH"
    by (simp add: m MAX_ARRAY_LENGTH_def)
  have h4: "\<forall>i < totalChunks (metaOf ''t1'' ?q).
           FileChunk ''ab12'' ''t1'' i (chunkBuffer (queued_file ?q) i) \<in> set ?between"
    unfolding m using c0 c1 by (simp add: numeral_2_eq_2 less_Suc_eq)
  have h5: "\<forall>msg \<in> set ?between. messageTransfer msg = ''t1'' \<longrightarrow>
           (\<exists>i < totalChunks (metaOf ''t1'' ?q).
              msg = FileChunk ''ab12'' ''t1'' i (chunkBuffer (queued_file ?q) i))"
    unfolding m using c0 c1 by (simp add: numeral_2_eq_2 less_Suc_eq)
  have h6: "\<forall>msg \<in> set ?later. messageTransfer msg \<noteq> ''t1''"
    by simp
  from chunked_transfer_round_trip [OF h1 h2 h3 h4 h5 h6, of initialReceiver]
  show ?thesis
    unfolding m using c0 c1 by (simp add: two)
qed

lemma totalChunksOf_two_pow_51: "totalChunksOf 2251799813685248 = 4294967296"
  by (simp add: totalChunksOf_div FILE_CHUNK_SIZE_def)

text \<open>
  Without the bound the round trip fails. A file of \<open>2^51\<close> bytes has \<open>2^32\<close> chunks; the
  sender emits all of them and \<^verbatim>\<open>file:complete\<close>, and its promise resolves. In the receiver
  \<^verbatim>\<open>new Array(4294967296)\<close> throws, nothing is registered, and every chunk and the
  completion are dropped: no transfer is ever listed.
\<close>

theorem round_trip_array_length_counterexample:
  "totalChunks (metaOf ''t1''
      \<lparr>queued_id = ''q1'',
       queued_file = \<lparr>file_name = ''big.bin'', file_type = '''',
                      file_bytes = replicate 2251799813685248 0, readFaults = []\<rparr>,
       queued_name = ''big.bin'', queued_size = 2251799813685248,
       queued_type = '''', queued_relativePath = None\<rparr>) = 4294967296
   \<and> snd (sendFile [] ''ab12'' ''t1''
      \<lparr>queued_id = ''q1'',
       queued_file = \<lparr>file_name = ''big.bin'', file_type = '''',
                      file_bytes = replicate 2251799813685248 0, readFaults = []\<rparr>,
       queued_name = ''big.bin'', queued_size = 2251799813685248,
       queued_type = '''', queued_relativePath = None\<rparr>) = False
   \<and> last (messagesOf (fst (sendFile [] ''ab12'' ''t1''
      \<lparr>queued_id = ''q1'',
       queued_file = \<lparr>file_name = ''big.bin'', file_type = '''',
                      file_bytes = replicate 2251799813685248 0, readFaults = []\<rparr>,
       queued_name = ''big.bin'', queued_size = 2251799813685248,
       queued_type = '''', queued_relativePath = None\<rparr>))) = FileComplete ''ab12'' ''t1''
   \<and> handleFileMeta (metaOf ''t1''
      \<lparr>queued_id = ''q1'',
       queued_file = \<lparr>file_name = ''big.bin'', file_type = '''',
                      file_bytes = replicate 2251799813685248 0, readFaults = []\<rparr>,
       queued_name = ''big.bin'', queued_size = 2251799813685248,
       queued_type = '''', queued_relativePath = None\<rparr>) initialReceiver = Inl RangeError
   \<and> incomingFiles (receiveAll (messagesOf (fst (sendFile [] ''ab12'' ''t1''
      \<lparr>queued_id = ''q1'',
       queued_file = \<lparr>file_name = ''big.bin'', file_type = '''',
                      file_bytes = replicate 2251799813685248 0, readFaults = []\<rparr>,
       queued_name = ''big.bin'', queued_size = 2251799813685248,
       queued_type = '''', queued_relativePath = None\<rparr>))) initialReceiver) = []"
proof -
  let ?f = "\<lparr>file_name = ''big.bin'', file_type = '''',
                      file_bytes = replicate 2251799813685248 (0 :: byte), readFaults = []\<rparr>"
  let ?q = "\<lparr>queued_id = ''q1'', queued_file = ?f,
       queued_name = ''big.bin'', queued_size = 2251799813685248,
       queued_type = '''', queued_relativePath = None\<rparr>"
  let ?m = "metaOf ''t1'' ?q"
  have n: "totalChunks ?m = 4294967296"
    by (simp add: metaOf_def totalChunksOf_two_pow_51)
  have tm: "transferId ?m = ''t1''" by (simp add: metaOf_def)
  have h1: "emitFault [] (FileMeta ''ab12'' ?m) = None"
    by (simp add: emitFault_def)
  have h2: "\<not> failsMidStream [] ''ab12'' ''t1'' ?q"
    by (simp add: failsMidStream_def failsFrom_def emitFault_def readFault_def)
  note sent = messagesOf_sendFile_success [OF h1 h2]
  have rejected: "snd (sendFile [] ''ab12'' ''t1'' ?q) = False"
    by (simp add: sendFile_success [OF h1 h2])
  have lst: "last (messagesOf (fst (sendFile [] ''ab12'' ''t1'' ?q))) = FileComplete ''ab12'' ''t1''"
    unfolding sent by simp
  have thrown: "handleFileMeta ?m initialReceiver = Inl RangeError"
    by (simp add: handleFileMeta_def newArray_def n MAX_ARRAY_LENGTH_def)
  have st1: "handle (FileMeta ''ab12'' ?m) initialReceiver = initialReceiver"
    by (simp add: thrown)
  have none: "incomingBuffers initialReceiver ''t1'' = None"
    by (simp add: initialReceiver_def)
  have rest: "receiveAll (map (\<lambda>i. FileChunk ''ab12'' ''t1'' i (chunkBuffer (queued_file ?q) i))
                 [0..<totalChunks ?m] @ [FileComplete ''ab12'' ''t1'']) initialReceiver
              = initialReceiver"
    by (rule receive_unregistered [OF none]) auto
  have "receiveAll (messagesOf (fst (sendFile [] ''ab12'' ''t1'' ?q))) initialReceiver
        = receiveAll (map (\<lambda>i. FileChunk ''ab12'' ''t1'' i (chunkBuffer (queued_file ?q) i))
                 [0..<totalChunks ?m] @ [FileComplete ''ab12'' ''t1''])
            (handle (FileMeta ''ab12'' ?m) initialReceiver)"
    unfolding sent by (simp add: receiveAll_def)
  then have "incomingFiles (receiveAll (messagesOf (fst (sendFile [] ''ab12'' ''t1'' ?q))) initialReceiver) = []"
    unfolding st1 rest by (simp add: initialReceiver_def)
  with n rejected lst thrown show ?thesis by blast
qed

text \<open>
  \<^bold>\<open>C5\<close> (meta resets), for a \<open>totalChunks\<close> that is an array length. When \<open>totalChunks\<close>
  is at most \<open>2^32 - 1\<close>: in any receiver state, whatever was registered before, handling a
  meta message leaves under its identifier a slot buffer of \<open>totalChunks\<close> empty slots and
  exactly one transfer: pending, with no bytes and no chunks received, no payload. The
  buffers and the transfers under other identifiers stay as they are, and handling the
  same meta a second time changes nothing more. When \<open>totalChunks\<close> is larger, the handler
  throws a \<^verbatim>\<open>RangeError\<close> and the receiver state is as before.
\<close>

theorem meta_resets_transfer:
  "MAX_ARRAY_LENGTH = 2 ^ 32 - 1
   \<and> (totalChunks m \<le> MAX_ARRAY_LENGTH \<longrightarrow>
        incomingBuffers (handle (FileMeta room m) st) (transferId m)
          = Some \<lparr>elements = replicate (totalChunks m) None, properties = Map.empty\<rparr>
        \<and> (\<forall>other. other \<noteq> transferId m \<longrightarrow>
              incomingBuffers (handle (FileMeta room m) st) other = incomingBuffers st other)
        \<and> filter (\<lambda>item. transferId (meta item) = transferId m)
              (incomingFiles (handle (FileMeta room m) st))
            = [\<lparr>meta = m, receivedBytes = 0, receivedChunks = 0, status = IPending,
                 errorMessage = None, downloadUrl = None, blob = None\<rparr>]
        \<and> filter (\<lambda>item. transferId (meta item) \<noteq> transferId m)
              (incomingFiles (handle (FileMeta room m) st))
            = filter (\<lambda>item. transferId (meta item) \<noteq> transferId m) (incomingFiles st)
        \<and> handle (FileMeta room m) (handle (FileMeta room m) st) = handle (FileMeta room m) st)
   \<and> (MAX_ARRAY_LENGTH < totalChunks m \<longrightarrow>
        handleFileMeta m st = Inl RangeError \<and> handle (FileMeta room m) st = st)"
  by (simp add: handleFileMeta_def newArray_def MAX_ARRAY_LENGTH_def)

theorem meta_resets_transfer_witness:
  "map (\<lambda>t. (receivedBytes t, receivedChunks t, status t))
     (incomingFiles (receiveAll
          [FileMeta ''ab12'' \<lparr>transferId = ''t1'', name = ''a.bin'', size_bytes = 5, type_mime = '''',
                            relativePath = None, totalChunks = 2\<rparr>,
           FileChunk ''ab12'' ''t1'' 0 [1, 2, 3],
           FileMeta ''ab12'' \<lparr>transferId = ''t1'', name = ''a.bin'', size_bytes = 5, type_mime = '''',
                            relativePath = None, totalChunks = 2\<rparr>] initialReceiver))
     = [(0, 0, IPending)]
   \<and> incomingBuffers (receiveAll
          [FileMeta ''ab12'' \<lparr>transferId = ''t1'', name = ''a.bin'', size_bytes = 5, type_mime = '''',
                            relativePath = None, totalChunks = 2\<rparr>,
           FileChunk ''ab12'' ''t1'' 0 [1, 2, 3],
           FileMeta ''ab12'' \<lparr>transferId = ''t1'', name = ''a.bin'', size_bytes = 5, type_mime = '''',
                            relativePath = None, totalChunks = 2\<rparr>] initialReceiver) ''t1''
     = Some \<lparr>elements = [None, None], properties = Map.empty\<rparr>"
proof -
  let ?m = "\<lparr>transferId = ''t1'', name = ''a.bin'', size_bytes = 5, type_mime = '''',
                            relativePath = None, totalChunks = 2\<rparr>"
  let ?st = "receiveAll [FileMeta ''ab12'' ?m, FileChunk ''ab12'' ''t1'' 0 [1, 2, 3]] initialReceiver"
  from meta_resets_transfer [of ?m "''ab12''" ?st]
  show ?thesis
    by (simp add: receiveAll_def handleFileMeta_def handleFileChunk_def initialReceiver_def
        newArray_def arrayStore_def numeral_2_eq_2 MAX_ARRAY_LENGTH_def)
qed

text \<open>
  A second meta that does not reset: after a meta with two chunks and one chunk of three
  bytes, a meta for the same identifier with \<open>totalChunks = 2^32\<close> leaves the transfer
  receiving, with the old meta, three bytes and one chunk counted, and the old buffer.
\<close>

theorem meta_beyond_array_length_counterexample:
  "map (\<lambda>t. (totalChunks (meta t), receivedBytes t, receivedChunks t, status t))
     (incomingFiles (receiveAll
          [FileMeta ''ab12'' \<lparr>transferId = ''t1'', name = ''a.bin'', size_bytes = 5, type_mime = '''',
                            relativePath = None, totalChunks = 2\<rparr>,
           FileChunk ''ab12'' ''t1'' 0 [1, 2, 3],
           FileMeta ''ab12'' \<lparr>transferId = ''t1'', name = ''a.bin'', size_bytes = 5, type_mime = '''',
                            relativePath = None, totalChunks = 4294967296\<rparr>] initialReceiver))
     = [(2, 3, 1, IReceiving)]
   \<and> incomingBuffers (receiveAll
          [FileMeta ''ab12'' \<lparr>transferId = ''t1'', name = ''a.bin'', size_bytes = 5, type_mime = '''',
                            relativePath = None, totalChunks = 2\<rparr>,
           FileChunk ''ab12'' ''t1'' 0 [1, 2, 3],
           FileMeta ''ab12'' \<lparr>transferId = ''t1'', name = ''a.bin'', size_bytes = 5, type_mime = '''',
                            relativePath = None, totalChunks = 4294967296\<rparr>] initialReceiver) ''t1''
     = Some \<lparr>elements = [Some [1, 2, 3], None], properties = Map.empty\<rparr>"
  by (simp add: receiveAll_def handleFileMeta_def handleFileChunk_def initialReceiver_def
        newArray_def arrayStore_def numeral_2_eq_2 MAX_ARRAY_LENGTH_def)

text \<open>
  \<^bold>\<open>C6\<close> (unknown chunk). A chunk message whose identifier has no slot buffer registered
  leaves the whole receiver state as it is.
\<close>

theorem chunk_unknown_transfer_noop:
  "incomingBuffers st tid = None \<Longrightarrow> handle (FileChunk room tid chunkIndex chunk) st = st"
  by (simp add: handleFileChunk_def)

theorem chunk_unknown_transfer_noop_witness:
  "incomingBuffers (handle (FileMeta ''ab12'' \<lparr>transferId = ''t1'', name = ''a.txt'', size_bytes = 3, type_mime = ''text/plain'', relativePath = None, totalChunks = 1\<rparr>) initialReceiver) ''t2'' = None
   \<and> handle (FileChunk ''ab12'' ''t2'' 0 [1, 2, 3])
        (handle (FileMeta ''ab12'' \<lparr>transferId = ''t1'', name = ''a.txt'', size_bytes = 3, type_mime = ''text/plain'', relativePath = None, totalChunks = 1\<rparr>) initialReceiver)
     = handle (FileMeta ''ab12'' \<lparr>transferId = ''t1'', name = ''a.txt'', size_bytes = 3, type_mime = ''text/plain'', relativePath = None, totalChunks = 1\<rparr>) initialReceiver"
proof -
  let ?m = "\<lparr>transferId = ''t1'', name = ''a.txt'', size_bytes = 3, type_mime = ''text/plain'', relativePath = None, totalChunks = 1\<rparr>"
  have h: "incomingBuffers (handle (FileMeta ''ab12'' ?m) initialReceiver) ''t2'' = None"
    by (simp add: handleFileMeta_def initialReceiver_def newArray_def MAX_ARRAY_LENGTH_def)
  from h chunk_unknown_transfer_noop [OF h] show ?thesis by simp
qed

text \<open>
  \<^bold>\<open>C7\<close> (chunk write and counters). For a chunk message whose identifier has a buffer
  registered: reading the buffer at \<open>chunkIndex\<close> gives the chunk afterwards, whatever was
  there before, and every other index reads as before. For an array index (below
  \<open>2^32 - 1\<close>) the chunk is the element at that index, the array having grown to
  \<open>chunkIndex + 1\<close> when it was shorter; for a larger number the elements are unchanged
  (the chunk is kept as a property and takes no part in the assembly). The buffers of
  other identifiers are unchanged. Every transfer under the identifier gets
  \<open>receivedBytes\<close> increased by the length of the chunk and \<open>receivedChunks\<close> by one, and
  is receiving; the other transfers are unchanged. When a second chunk message for the same
  index follows, the buffers are as if only the second had arrived (the last write wins),
  so the payload assembled on completion is the same, while the counters have grown by
  both lengths and by two.
\<close>

theorem chunk_written_and_counted_per_message:
  assumes "incomingBuffers st tid = Some buffers"
  shows "(\<exists>written. incomingBuffers (handle (FileChunk room tid i chunk) st) tid = Some written \<and>
            arrayGet written i = Some chunk \<and>
            (\<forall>j. j \<noteq> i \<longrightarrow> arrayGet written j = arrayGet buffers j) \<and>
            (i < MAX_ARRAY_LENGTH \<longrightarrow>
               i < length (elements written) \<and> elements written ! i = Some chunk \<and>
               length (elements written) = max (length (elements buffers)) (i + 1) \<and>
               properties written = properties buffers) \<and>
            (MAX_ARRAY_LENGTH \<le> i \<longrightarrow>
               elements written = elements buffers \<and> properties written i = Some chunk))
         \<and> (\<forall>other. other \<noteq> tid \<longrightarrow>
               incomingBuffers (handle (FileChunk room tid i chunk) st) other
                 = incomingBuffers st other)
         \<and> list_all2 (\<lambda>before after.
               if transferId (meta before) = tid
               then after = before\<lparr>receivedBytes := receivedBytes before + length chunk,
                                   receivedChunks := receivedChunks before + 1,
                                   status := IReceiving\<rparr>
               else after = before)
             (incomingFiles st) (incomingFiles (handle (FileChunk room tid i chunk) st))
         \<and> incomingBuffers (handle (FileChunk room tid i chunk') (handle (FileChunk room tid i chunk) st))
             = incomingBuffers (handle (FileChunk room tid i chunk') st)
         \<and> list_all2 (\<lambda>before after.
               if transferId (meta before) = tid
               then receivedBytes after = receivedBytes before + length chunk + length chunk' \<and>
                    receivedChunks after = receivedChunks before + 2
               else after = before)
             (incomingFiles st)
             (incomingFiles (handle (FileChunk room tid i chunk') (handle (FileChunk room tid i chunk) st)))
         \<and> map blob (incomingFiles (handle (FileComplete room tid)
               (handle (FileChunk room tid i chunk') (handle (FileChunk room tid i chunk) st))))
           = map blob (incomingFiles (handle (FileComplete room tid)
               (handle (FileChunk room tid i chunk') st)))"
proof -
  let ?st1 = "handle (FileChunk room tid i chunk) st"
  let ?st2 = "handle (FileChunk room tid i chunk') ?st1"
  let ?st2' = "handle (FileChunk room tid i chunk') st"
  let ?w = "arrayStore buffers i chunk"
  have b1: "incomingBuffers ?st1 tid = Some ?w"
    using assms by (simp add: handleFileChunk_def)
  have g: "arrayGet ?w i = Some chunk" "\<forall>j. j \<noteq> i \<longrightarrow> arrayGet ?w j = arrayGet buffers j"
    by (simp_all add: arrayStore_get)
  have inside: "i < MAX_ARRAY_LENGTH \<longrightarrow>
               i < length (elements ?w) \<and> elements ?w ! i = Some chunk \<and>
               length (elements ?w) = max (length (elements buffers)) (i + 1) \<and>
               properties ?w = properties buffers"
    by (auto simp: arrayStore_def nth_append)
  have outside: "MAX_ARRAY_LENGTH \<le> i \<longrightarrow>
               elements ?w = elements buffers \<and> properties ?w i = Some chunk"
    by (simp add: arrayStore_def)
  have p1: "\<exists>written. incomingBuffers ?st1 tid = Some written \<and>
            arrayGet written i = Some chunk \<and>
            (\<forall>j. j \<noteq> i \<longrightarrow> arrayGet written j = arrayGet buffers j) \<and>
            (i < MAX_ARRAY_LENGTH \<longrightarrow>
               i < length (elements written) \<and> elements written ! i = Some chunk \<and>
               length (elements written) = max (length (elements buffers)) (i + 1) \<and>
               properties written = properties buffers) \<and>
            (MAX_ARRAY_LENGTH \<le> i \<longrightarrow>
               elements written = elements buffers \<and> properties written i = Some chunk)"
    using b1 g inside outside by blast
  have p1': "\<forall>other. other \<noteq> tid \<longrightarrow> incomingBuffers ?st1 other = incomingBuffers st other"
    using assms by (simp add: handleFileChunk_def)
  have p2: "list_all2 (\<lambda>before after.
               if transferId (meta before) = tid
               then after = before\<lparr>receivedBytes := receivedBytes before + length chunk,
                                   receivedChunks := receivedChunks before + 1,
                                   status := IReceiving\<rparr>
               else after = before)
             (incomingFiles st) (incomingFiles ?st1)"
    using assms by (simp add: handleFileChunk_def list_all2_map2 list_all2_same)
  have p3: "incomingBuffers ?st2 = incomingBuffers ?st2'"
    using assms by (simp add: handleFileChunk_def arrayStore_overwrite)
  have p4: "list_all2 (\<lambda>before after.
               if transferId (meta before) = tid
               then receivedBytes after = receivedBytes before + length chunk + length chunk' \<and>
                    receivedChunks after = receivedChunks before + 2
               else after = before)
             (incomingFiles st) (incomingFiles ?st2)"
    using assms by (simp add: handleFileChunk_def list_all2_map2 list_all2_same)
  have p5: "map blob (incomingFiles (handle (FileComplete room tid) ?st2))
           = map blob (incomingFiles (handle (FileComplete room tid) ?st2'))"
    using assms by (simp add: handleFileChunk_def handleFileComplete_def Let_def arrayStore_overwrite)
  from p1 p1' p2 p3 p4 p5 show ?thesis by blast
qed

theorem chunk_written_and_counted_per_message_witness:
  "incomingBuffers (handle (FileMeta ''ab12'' \<lparr>transferId = ''t1'', name = ''a.bin'', size_bytes = 5, type_mime = '''',
                            relativePath = None, totalChunks = 2\<rparr>) initialReceiver) ''t1''
     = Some \<lparr>elements = [None, None], properties = Map.empty\<rparr>
   \<and> map (\<lambda>t. (receivedBytes t, receivedChunks t, status t))
       (incomingFiles (receiveAll
          [FileMeta ''ab12'' \<lparr>transferId = ''t1'', name = ''a.bin'', size_bytes = 5, type_mime = '''',
                            relativePath = None, totalChunks = 2\<rparr>,
           FileChunk ''ab12'' ''t1'' 1 [4, 5],
           FileChunk ''ab12'' ''t1'' 1 [6, 7, 8]] initialReceiver))
       = [(5, 2, IReceiving)]
   \<and> incomingBuffers (receiveAll
          [FileMeta ''ab12'' \<lparr>transferId = ''t1'', name = ''a.bin'', size_bytes = 5, type_mime = '''',
                            relativePath = None, totalChunks = 2\<rparr>,
           FileChunk ''ab12'' ''t1'' 1 [4, 5],
           FileChunk ''ab12'' ''t1'' 1 [6, 7, 8]] initialReceiver) ''t1''
     = Some \<lparr>elements = [None, Some [6, 7, 8]], properties = Map.empty\<rparr>
   \<and> map blob (incomingFiles (receiveAll
          [FileMeta ''ab12'' \<lparr>transferId = ''t1'', name = ''a.bin'', size_bytes = 5, type_mime = '''',
                            relativePath = None, totalChunks = 2\<rparr>,
           FileChunk ''ab12'' ''t1'' 1 [4, 5],
           FileChunk ''ab12'' ''t1'' 1 [6, 7, 8],
           FileComplete ''ab12'' ''t1''] initialReceiver))
     = [Some [6, 7, 8]]"
proof -
  let ?m = "\<lparr>transferId = ''t1'', name = ''a.bin'', size_bytes = 5, type_mime = '''',
                            relativePath = None, totalChunks = 2\<rparr>"
  have h: "incomingBuffers (handle (FileMeta ''ab12'' ?m) initialReceiver) ''t1''
             = Some \<lparr>elements = [None, None], properties = Map.empty\<rparr>"
    by (simp add: handleFileMeta_def initialReceiver_def newArray_def numeral_2_eq_2 MAX_ARRAY_LENGTH_def)
  from h chunk_written_and_counted_per_message [OF h, of "''ab12''" 1 "[4, 5]" "[6, 7, 8]"]
  show ?thesis
    by (simp add: receiveAll_def handleFileMeta_def handleFileChunk_def handleFileComplete_def
        initialReceiver_def newArray_def arrayStore_def numeral_2_eq_2 MAX_ARRAY_LENGTH_def
        newBlob_def Let_def)
qed

text \<open>
  \<^bold>\<open>C10\<close> (counters on completion). When the completion message is handled for an
  identifier with a registered buffer, every transfer under that identifier gets
  \<open>receivedBytes\<close> set to the declared size and \<open>receivedChunks\<close> to the declared count of
  chunks, whatever the counters were; its payload is the concatenation of the populated
  slots only, in index order. The witness is a transfer of declared size 10 in 2 chunks of
  which only the second chunk, of 2 bytes, arrived: the counters read 10 and 2, the payload
  has 2 bytes.
\<close>

theorem complete_overwrites_counters:
  "incomingBuffers st tid = Some buffers \<Longrightarrow>
   list_all2 (\<lambda>before after.
       meta after = meta before \<and>
       (if transferId (meta before) = tid
        then receivedBytes after = size_bytes (meta before) \<and>
             receivedChunks after = totalChunks (meta before) \<and>
             status after = IComplete \<and>
             blob after = Some (concat (orderedChunks (elements buffers))) \<and>
             blob after = Some (concat (map the (filter (\<lambda>slot. slot \<noteq> None) (elements buffers))))
        else after = before))
     (incomingFiles st) (incomingFiles (handle (FileComplete room tid) st))"
  by (simp add: handleFileComplete_def Let_def newBlob_def list_all2_map2 list_all2_same
      orderedChunks_filter)

theorem complete_overwrites_counters_witness:
  "incomingBuffers (receiveAll
          [FileMeta ''ab12'' \<lparr>transferId = ''t1'', name = ''a.bin'', size_bytes = 10, type_mime = '''',
                            relativePath = None, totalChunks = 2\<rparr>,
           FileChunk ''ab12'' ''t1'' 1 [4, 5]] initialReceiver) ''t1''
     = Some \<lparr>elements = [None, Some [4, 5]], properties = Map.empty\<rparr>
   \<and> map (\<lambda>t. (receivedBytes t, receivedChunks t, status t, blob t))
       (incomingFiles (handle (FileComplete ''ab12'' ''t1'') (receiveAll
          [FileMeta ''ab12'' \<lparr>transferId = ''t1'', name = ''a.bin'', size_bytes = 10, type_mime = '''',
                            relativePath = None, totalChunks = 2\<rparr>,
           FileChunk ''ab12'' ''t1'' 1 [4, 5]] initialReceiver)))
       = [(10, 2, IComplete, Some [4, 5])]"
proof -
  let ?st = "receiveAll
          [FileMeta ''ab12'' \<lparr>transferId = ''t1'', name = ''a.bin'', size_bytes = 10, type_mime = '''',
                            relativePath = None, totalChunks = 2\<rparr>,
           FileChunk ''ab12'' ''t1'' 1 [4, 5]] initialReceiver"
  have h: "incomingBuffers ?st ''t1'' = Some \<lparr>elements = [None, Some [4, 5]], properties = Map.empty\<rparr>"
    by (simp add: receiveAll_def handleFileMeta_def handleFileChunk_def initialReceiver_def
        newArray_def arrayStore_def numeral_2_eq_2 MAX_ARRAY_LENGTH_def)
  from h complete_overwrites_counters [OF h, of "''ab12''"]
  show ?thesis
    by (simp add: receiveAll_def handleFileMeta_def handleFileChunk_def handleFileComplete_def
        initialReceiver_def newArray_def arrayStore_def numeral_2_eq_2 newBlob_def Let_def
        MAX_ARRAY_LENGTH_def)
qed

section \<open>Terminal statuses of the receiver\<close>

lemma terminalReleased_initial: "terminalReleased initialReceiver"
  by (simp add: terminalReleased_def initialReceiver_def)

lemma terminalReleased_handle:
  assumes "terminalReleased st"
  shows "terminalReleased (handle msg st)"
proof (cases msg)
  case (FileMeta room m)
  then show ?thesis
    using assms
    by (auto simp: terminalReleased_def handleFileMeta_def newArray_def list_all_iff)
next
  case (FileChunk room tid i chunk)
  then show ?thesis
    using assms
    by (auto simp: terminalReleased_def handleFileChunk_def list_all_iff split: option.splits)
next
  case (FileComplete room tid)
  then show ?thesis
    using assms
    by (auto simp: terminalReleased_def handleFileComplete_def Let_def list_all_iff
        split: option.splits)
next
  case (FileError room tid m)
  then show ?thesis
    using assms by (auto simp: terminalReleased_def handleFileError_def list_all_iff)
qed

lemma terminalReleased_receiveAll:
  "terminalReleased st \<Longrightarrow> terminalReleased (receiveAll msgs st)"
  unfolding receiveAll_def
  by (induction msgs arbitrary: st) (simp_all add: terminalReleased_handle)

lemma terminal_step:
  assumes "terminalReleased st" and "\<not> isFileMeta msg"
  shows "list_all2 (\<lambda>before after.
            meta after = meta before \<and>
            (status before = IError \<longrightarrow> status after = IError) \<and>
            (status before = IComplete \<longrightarrow>
               status after = (if isFileErrorFor (transferId (meta before)) msg
                               then IError else IComplete)))
         (incomingFiles st) (incomingFiles (handle msg st))"
proof (cases msg)
  case (FileMeta room m)
  then show ?thesis using assms(2) by simp
next
  case (FileChunk room tid i chunk)
  then show ?thesis
    using assms(1)
    by (auto simp: terminalReleased_def handleFileChunk_def list_all_iff list_all2_map2
        list_all2_same split: option.splits)
next
  case (FileComplete room tid)
  then show ?thesis
    using assms(1)
    by (auto simp: terminalReleased_def handleFileComplete_def Let_def list_all_iff
        list_all2_map2 list_all2_same split: option.splits)
next
  case (FileError room tid m)
  then show ?thesis
    by (auto simp: handleFileError_def list_all2_map2 list_all2_same)
qed

lemma terminal_steps:
  "terminalReleased st \<Longrightarrow> list_all (\<lambda>m. \<not> isFileMeta m) msgs \<Longrightarrow>
   list_all2 (\<lambda>before after.
            meta after = meta before \<and>
            (status before = IError \<longrightarrow> status after = IError) \<and>
            (status before = IComplete \<longrightarrow>
               status after = (if list_ex (isFileErrorFor (transferId (meta before))) msgs
                               then IError else IComplete)))
         (incomingFiles st) (incomingFiles (receiveAll msgs st))"
proof (induction msgs arbitrary: st)
  case Nil
  show ?case by (simp add: receiveAll_def list_all2_same)
next
  case (Cons msg msgs)
  from Cons.prems have nm: "\<not> isFileMeta msg" and rest: "list_all (\<lambda>m. \<not> isFileMeta m) msgs"
    by simp_all
  have inv: "terminalReleased (handle msg st)"
    by (rule terminalReleased_handle [OF Cons.prems(1)])
  note first = terminal_step [OF Cons.prems(1) nm]
  note later = Cons.IH [OF inv rest]
  have r: "receiveAll (msg # msgs) st = receiveAll msgs (handle msg st)"
    by (simp add: receiveAll_def)
  show ?case
    unfolding r
    by (rule list_all2_trans [OF _ first later]) (auto split: if_splits)
qed

text \<open>
  \<^bold>\<open>C3\<close> (terminal statuses), as the code has it. The receiver state is any state reached from
  the initial one, and the messages handled next are chunk, completion and error messages.
  A transfer whose status is error keeps it. A transfer whose status is complete keeps it
  unless one of the messages is an error message for its identifier: the error handler
  sets the status of every transfer under the identifier, whatever it was, so the transfer
  then ends in error.
\<close>

theorem terminal_status_absorbing:
  assumes "list_all (\<lambda>m. \<not> isFileMeta m) msgs"
  shows "list_all2 (\<lambda>before after.
            meta after = meta before \<and>
            (status before = IError \<longrightarrow> status after = IError) \<and>
            (status before = IComplete \<longrightarrow>
               status after = (if list_ex (isFileErrorFor (transferId (meta before))) msgs
                               then IError else IComplete)))
         (incomingFiles (receiveAll history initialReceiver))
         (incomingFiles (receiveAll msgs (receiveAll history initialReceiver)))"
  by (rule terminal_steps [OF terminalReleased_receiveAll [OF terminalReleased_initial] assms])

text \<open>
  The claim as stated fails: after meta, chunk and completion the transfer is complete, and
  an error message for the same identifier changes its status to error.
\<close>

theorem complete_then_error_counterexample:
  "map status (incomingFiles (receiveAll
       [FileMeta ''ab12'' \<lparr>transferId = ''t1'', name = ''a.bin'', size_bytes = 3, type_mime = '''',
                            relativePath = None, totalChunks = 1\<rparr>,
        FileChunk ''ab12'' ''t1'' 0 [1, 2, 3],
        FileComplete ''ab12'' ''t1''] initialReceiver)) = [IComplete]
   \<and> map status (incomingFiles (handle (FileError ''ab12'' ''t1'' None) (receiveAll
       [FileMeta ''ab12'' \<lparr>transferId = ''t1'', name = ''a.bin'', size_bytes = 3, type_mime = '''',
                            relativePath = None, totalChunks = 1\<rparr>,
        FileChunk ''ab12'' ''t1'' 0 [1, 2, 3],
        FileComplete ''ab12'' ''t1''] initialReceiver))) = [IError]"
  by (simp add: receiveAll_def handleFileMeta_def handleFileChunk_def handleFileComplete_def
      handleFileError_def initialReceiver_def newArray_def arrayStore_def Let_def
      MAX_ARRAY_LENGTH_def)

theorem terminal_status_absorbing_witness:
  "list_all (\<lambda>m. \<not> isFileMeta m)
     [FileChunk ''ab12'' ''t1'' 0 [9], FileComplete ''ab12'' ''t1'', FileError ''ab12'' ''t2'' None]
   \<and> map status (incomingFiles (receiveAll
       [FileMeta ''ab12'' \<lparr>transferId = ''t1'', name = ''a.bin'', size_bytes = 3, type_mime = '''',
                            relativePath = None, totalChunks = 1\<rparr>,
        FileMeta ''ab12'' \<lparr>transferId = ''t2'', name = ''b.bin'', size_bytes = 3, type_mime = '''',
                            relativePath = None, totalChunks = 1\<rparr>,
        FileError ''ab12'' ''t1'' None,
        FileComplete ''ab12'' ''t2''] initialReceiver)) = [IError, IComplete]
   \<and> map status (incomingFiles (receiveAll
       [FileChunk ''ab12'' ''t1'' 0 [9], FileComplete ''ab12'' ''t1'', FileError ''ab12'' ''t2'' None]
       (receiveAll
       [FileMeta ''ab12'' \<lparr>transferId = ''t1'', name = ''a.bin'', size_bytes = 3, type_mime = '''',
                            relativePath = None, totalChunks = 1\<rparr>,
        FileMeta ''ab12'' \<lparr>transferId = ''t2'', name = ''b.bin'', size_bytes = 3, type_mime = '''',
                            relativePath = None, totalChunks = 1\<rparr>,
        FileError ''ab12'' ''t1'' None,
        FileComplete ''ab12'' ''t2''] initialReceiver))) = [IError, IError]"
proof -
  have h: "list_all (\<lambda>m. \<not> isFileMeta m)
     [FileChunk ''ab12'' ''t1'' 0 [9], FileComplete ''ab12'' ''t1'', FileError ''ab12'' ''t2'' None]"
    by simp
  from h terminal_status_absorbing [OF h, of
       "[FileMeta ''ab12'' \<lparr>transferId = ''t1'', name = ''a.bin'', size_bytes = 3, type_mime = '''',
                            relativePath = None, totalChunks = 1\<rparr>,
        FileMeta ''ab12'' \<lparr>transferId = ''t2'', name = ''b.bin'', size_bytes = 3, type_mime = '''',
                            relativePath = None, totalChunks = 1\<rparr>,
        FileError ''ab12'' ''t1'' None,
        FileComplete ''ab12'' ''t2'']"]
  show ?thesis
    by (simp add: receiveAll_def handleFileMeta_def handleFileChunk_def handleFileComplete_def
      handleFileError_def initialReceiver_def newArray_def arrayStore_def Let_def
      MAX_ARRAY_LENGTH_def)
qed

section \<open>The count of chunks\<close>

text \<open>
  \<^bold>\<open>C2\<close> (count of chunks). The \<open>totalChunks\<close> that the sender puts into the meta is
  \<open>max(1, ceil(size / chunkSize))\<close> with the chunk size 512 KiB; it is at least one, and it
  is one for the empty file.
\<close>

theorem totalChunks_is_max_one_ceil:
  "totalChunks (metaOf tid queued)
     = spec_totalChunks (length (file_bytes (queued_file queued))) (512 * 1024)
   \<and> totalChunksOf sz = spec_totalChunks sz (512 * 1024)
   \<and> 1 \<le> totalChunksOf sz
   \<and> totalChunksOf 0 = 1"
proof -
  have e: "(if c = 0 then 1 else c) = max 1 c" for c :: nat by simp
  have a: "totalChunksOf n = spec_totalChunks n (512 * 1024)" for n
    unfolding totalChunksOf_def spec_totalChunks_def Let_def e FILE_CHUNK_SIZE_def ..
  have b: "1 \<le> totalChunksOf sz" by (rule totalChunksOf_pos)
  have c: "totalChunksOf 0 = 1" by (simp add: totalChunksOf_def)
  have d: "totalChunks (metaOf tid queued) = totalChunksOf (length (file_bytes (queued_file queued)))"
    by (simp add: metaOf_def)
  show ?thesis using a b c d by simp
qed

theorem totalChunks_is_max_one_ceil_witness:
  "totalChunksOf 0 = 1 \<and> totalChunksOf 1 = 1 \<and> totalChunksOf 524288 = 1
   \<and> totalChunksOf 524289 = 2 \<and> totalChunksOf 1048577 = 3
   \<and> spec_totalChunks 1048577 (512 * 1024) = 3"
  using totalChunks_is_max_one_ceil [of "''t1''"
      "\<lparr>queued_id = ''q1'',
        queued_file = \<lparr>file_name = ''a.bin'', file_type = '''', file_bytes = [], readFaults = []\<rparr>,
        queued_name = ''a.bin'', queued_size = 0, queued_type = '''', queued_relativePath = None\<rparr>"
      1048577]
  by (simp add: totalChunksOf_div FILE_CHUNK_SIZE_def)

section \<open>Folder groups\<close>

lemma pushToGroup_names:
  "map folderName (pushToGroup r t gs) =
     (if r \<in> set (map folderName gs) then map folderName gs else map folderName gs @ [r])"
  by (induction gs) auto

lemma pushToGroup_name_set:
  "folderName ` set (pushToGroup r t gs) = insert r (folderName ` set gs)"
  by (induction gs) auto

lemma pushToGroup_set:
  "distinct (map folderName gs) \<Longrightarrow>
   set (pushToGroup r t gs) =
     (if r \<in> folderName ` set gs
      then (\<lambda>g. if folderName g = r then g\<lparr>files := files g @ [t]\<rparr> else g) ` set gs
      else insert \<lparr>folderName = r, files = [t]\<rparr> (set gs))"
proof (induction gs)
  case Nil
  show ?case by simp
next
  case (Cons g gs)
  show ?case
  proof (cases "folderName g = r")
    case True
    with Cons.prems have "\<forall>h \<in> set gs. folderName h \<noteq> r" by (auto simp: image_iff)
    then have "(\<lambda>g. if folderName g = r then g\<lparr>files := files g @ [t]\<rparr> else g) ` set gs
               = id ` set gs"
      by (intro image_cong) simp_all
    with True show ?thesis by simp
  next
    case False
    with Cons show ?thesis by auto
  qed
qed

lemma firstSegment_Nil: "firstSegment [] = []"
  by (simp add: firstSegment_def)

lemma groupsOf_step:
  assumes "groupsOf gs xs"
  shows "groupsOf (groupTransfer t gs) (xs @ [t])"
proof (cases "relativePath (meta t)")
  case None
  with assms show ?thesis by (auto simp: groupsOf_def groupTransfer_def)
next
  case (Some path)
  show ?thesis
  proof (cases "firstSegment path = []")
    case True
    with Some assms show ?thesis
      by (auto simp: groupsOf_def groupTransfer_def)
  next
    case False
    then have ne: "path \<noteq> []" by (auto simp: firstSegment_Nil)
    let ?r = "firstSegment path"
    let ?F = "\<lambda>n t. map_option firstSegment (relativePath (meta t)) = Some n"
    from assms have d: "distinct (map folderName gs)"
      and fs: "\<And>g. g \<in> set gs \<Longrightarrow> folderName g \<noteq> [] \<and> files g = filter (?F (folderName g)) xs"
      and ex: "\<And>t p. t \<in> set xs \<Longrightarrow> relativePath (meta t) = Some p \<Longrightarrow> firstSegment p \<noteq> []
                 \<Longrightarrow> firstSegment p \<in> folderName ` set gs"
      by (simp_all add: groupsOf_def)
    have g: "groupTransfer t gs = pushToGroup ?r t gs"
      using Some False ne by (simp add: groupTransfer_def)
    have Ft: "?F n t \<longleftrightarrow> n = ?r" for n using Some by auto
    have app: "filter (?F n) (xs @ [t]) = (if n = ?r then filter (?F n) xs @ [t] else filter (?F n) xs)"
      for n using Ft [of n] by simp
    have old: "folderName h \<noteq> [] \<and> files h = filter (?F (folderName h)) (xs @ [t])"
      if "h \<in> set gs" "folderName h \<noteq> ?r" for h
      using fs [OF that(1)] that(2) Some by auto
    have upd: "files h @ [t] = filter (?F ?r) (xs @ [t])"
      if "h \<in> set gs" "folderName h = ?r" for h
      using fs [OF that(1)] that(2) Some by simp
    have none: "filter (?F ?r) xs = []" if "?r \<notin> folderName ` set gs"
    proof -
      have "\<not> ?F ?r u" if "u \<in> set xs" for u
      proof (cases "relativePath (meta u)")
        case None
        then show ?thesis by simp
      next
        case (Some p)
        show ?thesis
        proof
          assume "?F ?r u"
          with Some have "firstSegment p = ?r" by simp
          with ex [OF \<open>u \<in> set xs\<close> Some] False \<open>?r \<notin> folderName ` set gs\<close>
          show False by simp
        qed
      qed
      then show ?thesis by (simp add: filter_empty_conv)
    qed
    have new: "filter (?F ?r) (xs @ [t]) = [t]" if "?r \<notin> folderName ` set gs"
      using none [OF that] Some by simp
    have ii: "folderName h \<noteq> [] \<and> files h = filter (?F (folderName h)) (xs @ [t])"
      if "h \<in> set (pushToGroup ?r t gs)" for h
    proof (cases "?r \<in> folderName ` set gs")
      case True
      with that obtain h0 where h0: "h0 \<in> set gs"
        and h: "h = (if folderName h0 = ?r then h0\<lparr>files := files h0 @ [t]\<rparr> else h0)"
        by (auto simp: pushToGroup_set [OF d])
      show ?thesis
      proof (cases "folderName h0 = ?r")
        case True
        then have "h = h0\<lparr>files := files h0 @ [t]\<rparr>" using h by simp
        then have "folderName h = ?r" and "files h = files h0 @ [t]" using True by simp_all
        with upd [OF h0 True] \<open>firstSegment path \<noteq> []\<close> show ?thesis by simp
      next
        case False
        with h old [OF h0 False] show ?thesis by simp
      qed
    next
      case False
      with that have "h = \<lparr>folderName = ?r, files = [t]\<rparr> \<or> h \<in> set gs"
        by (simp add: pushToGroup_set [OF d])
      then show ?thesis
      proof
        assume "h = \<lparr>folderName = ?r, files = [t]\<rparr>"
        then have "folderName h = ?r" and "files h = [t]" by simp_all
        then show ?thesis using new [OF False] \<open>firstSegment path \<noteq> []\<close> by simp
      next
        assume hs: "h \<in> set gs"
        with False have "folderName h \<noteq> ?r" by (auto simp: image_iff)
        from old [OF hs this] show ?thesis .
      qed
    qed
    have names: "folderName ` set gs \<subseteq> folderName ` set (pushToGroup ?r t gs)"
      and own: "?r \<in> folderName ` set (pushToGroup ?r t gs)"
      by (simp_all only: pushToGroup_name_set) auto
    have iii: "firstSegment p \<in> folderName ` set (pushToGroup ?r t gs)"
      if "u \<in> set (xs @ [t])" "relativePath (meta u) = Some p" "firstSegment p \<noteq> []" for u p
    proof (cases "u = t")
      case True
      with that(2) Some have "p = path" by simp
      with own show ?thesis by simp
    next
      case False
      with that(1) have "u \<in> set xs" by simp
      from ex [OF this that(2,3)] names show ?thesis by blast
    qed
    have i: "distinct (map folderName (pushToGroup ?r t gs))"
      using d by (simp add: pushToGroup_names)
    show ?thesis
      unfolding g groupsOf_def using i ii iii by blast
  qed
qed

lemma groupsOf_folderGroups: "groupsOf (folderGroups incoming) incoming"
  unfolding folderGroups_def
proof (induction incoming rule: rev_induct)
  case Nil
  show ?case by (simp add: groupsOf_def)
next
  case (snoc t xs)
  then show ?case by (simp add: groupsOf_step)
qed

lemma find_distinct_name:
  assumes "distinct (map folderName gs)"
  shows "find (\<lambda>group. folderName group = n) gs = Some g \<longleftrightarrow> g \<in> set gs \<and> folderName g = n"
  using assms by (induction gs) auto

text \<open>
  \<^bold>\<open>C9\<close> (folder groups and the save gate). Every group has a non-empty name and holds, in
  order, exactly the incoming transfers whose relative path has that name as its first
  segment; the names are distinct; every transfer whose relative path has a non-empty
  first segment has its group; a transfer without a relative path is in no group.
  \<^verbatim>\<open>handleSaveFolder\<close> goes on to save a group exactly when it is the group of the requested
  name and each of its files is complete with a payload; in every other case the outcome
  is a refusal with a message.
\<close>

theorem folder_groups_and_save_gate:
  "(\<forall>g \<in> set (folderGroups incoming).
       folderName g \<noteq> [] \<and>
       files g = filter (\<lambda>t. map_option firstSegment (relativePath (meta t)) = Some (folderName g))
                   incoming)
   \<and> distinct (map folderName (folderGroups incoming))
   \<and> (\<forall>t \<in> set incoming. \<forall>path.
         relativePath (meta t) = Some path \<and> firstSegment path \<noteq> []
         \<longrightarrow> firstSegment path \<in> folderName ` set (folderGroups incoming))
   \<and> (\<forall>t \<in> set incoming. relativePath (meta t) = None
         \<longrightarrow> (\<forall>g \<in> set (folderGroups incoming). t \<notin> set (files g)))
   \<and> (handleSaveFolder requested incoming = Saves g \<longleftrightarrow>
         g \<in> set (folderGroups incoming) \<and> folderName g = requested \<and>
         (\<forall>file \<in> set (files g). status file = IComplete \<and> blob file \<noteq> None))
   \<and> ((\<forall>g'. handleSaveFolder requested incoming \<noteq> Saves g')
         \<longrightarrow> (\<exists>msg. handleSaveFolder requested incoming = Refused msg))"
proof -
  let ?gs = "folderGroups incoming"
  have inv: "groupsOf ?gs incoming" by (rule groupsOf_folderGroups)
  then have d: "distinct (map folderName ?gs)" by (simp add: groupsOf_def)
  from inv have a: "\<forall>g \<in> set ?gs.
       folderName g \<noteq> [] \<and>
       files g = filter (\<lambda>t. map_option firstSegment (relativePath (meta t)) = Some (folderName g))
                   incoming"
    by (simp add: groupsOf_def)
  from inv have c: "\<forall>t \<in> set incoming. \<forall>path.
         relativePath (meta t) = Some path \<and> firstSegment path \<noteq> []
         \<longrightarrow> firstSegment path \<in> folderName ` set ?gs"
    by (simp add: groupsOf_def)
  have e: "\<forall>t \<in> set incoming. relativePath (meta t) = None
         \<longrightarrow> (\<forall>g \<in> set ?gs. t \<notin> set (files g))"
  proof (intro ballI impI)
    fix t g
    assume "t \<in> set incoming" "relativePath (meta t) = None" "g \<in> set ?gs"
    with a have "files g = filter (\<lambda>t. map_option firstSegment (relativePath (meta t)) = Some (folderName g)) incoming"
      by blast
    with \<open>relativePath (meta t) = None\<close> show "t \<notin> set (files g)" by simp
  qed
  have f: "handleSaveFolder requested incoming = Saves g \<longleftrightarrow>
         g \<in> set ?gs \<and> folderName g = requested \<and>
         (\<forall>file \<in> set (files g). status file = IComplete \<and> blob file \<noteq> None)"
  proof (cases "find (\<lambda>group. folderName group = requested) ?gs")
    case None
    then have "\<not> (g \<in> set ?gs \<and> folderName g = requested)"
      by (auto simp: find_None_iff)
    with None show ?thesis by (auto simp: handleSaveFolder_def)
  next
    case (Some target)
    then have t: "target \<in> set ?gs \<and> folderName target = requested"
      by (simp add: find_distinct_name [OF d])
    have u: "g \<in> set ?gs \<and> folderName g = requested \<longleftrightarrow> g = target"
      using find_distinct_name [OF d, of requested g] Some by auto
    have "handleSaveFolder requested incoming = Saves g \<longleftrightarrow>
            g = target \<and> (\<forall>file \<in> set (files target). status file = IComplete \<and> blob file \<noteq> None)"
      using Some by (auto simp: handleSaveFolder_def list_ex_iff)
    with u show ?thesis by blast
  qed
  have h: "(\<forall>g'. handleSaveFolder requested incoming \<noteq> Saves g')
         \<longrightarrow> (\<exists>msg. handleSaveFolder requested incoming = Refused msg)"
    by (cases "handleSaveFolder requested incoming") simp_all
  from a d c e f h show ?thesis by blast
qed

theorem folder_groups_and_save_gate_witness:
  "let received = (\<lambda>tid path st payload.
          \<lparr>meta = \<lparr>transferId = tid, name = ''f'', size_bytes = 1, type_mime = [],
                    relativePath = path, totalChunks = 1\<rparr>,
           receivedBytes = 1, receivedChunks = 1, status = st, errorMessage = None,
           downloadUrl = None, blob = payload\<rparr>);
       a = received ''t1'' (Some ''docs/a.txt'') IComplete (Some [1]);
       b = received ''t2'' (Some ''docs/sub/b.txt'') IReceiving None;
       b' = received ''t2'' (Some ''docs/sub/b.txt'') IComplete (Some [2]);
       c = received ''t3'' None IComplete (Some [3]);
       d = received ''t4'' (Some ''/rooted.txt'') IComplete (Some [4])
   in folderGroups [a, b, c, d] = [\<lparr>folderName = ''docs'', files = [a, b]\<rparr>]
      \<and> handleSaveFolder ''docs'' [a, b, c, d]
          = Refused ''Pastikan semua berkas dalam folder selesai diterima sebelum menyimpan.''
      \<and> handleSaveFolder ''docs'' [a, b', c, d] = Saves \<lparr>folderName = ''docs'', files = [a, b']\<rparr>
      \<and> handleSaveFolder ''other'' [a, b', c, d]
          = Refused ''Folder tidak ditemukan dalam antrian penerimaan.''"
proof -
  define received where "received = (\<lambda>tid path st payload.
          \<lparr>meta = \<lparr>transferId = tid, name = ''f'', size_bytes = 1, type_mime = [],
                    relativePath = path, totalChunks = 1\<rparr>,
           receivedBytes = 1, receivedChunks = 1, status = st, errorMessage = None,
           downloadUrl = None, blob = payload :: Blob option\<rparr>)"
  define a where "a = received ''t1'' (Some ''docs/a.txt'') IComplete (Some [1])"
  define b where "b = received ''t2'' (Some ''docs/sub/b.txt'') IReceiving None"
  define b' where "b' = received ''t2'' (Some ''docs/sub/b.txt'') IComplete (Some [2])"
  define c where "c = received ''t3'' None IComplete (Some [3])"
  define d where "d = received ''t4'' (Some ''/rooted.txt'') IComplete (Some [4])"
  have g: "folderGroups [a, b, c, d] = [\<lparr>folderName = ''docs'', files = [a, b]\<rparr>]"
    and g': "folderGroups [a, b', c, d] = [\<lparr>folderName = ''docs'', files = [a, b']\<rparr>]"
    by (simp_all add: folderGroups_def groupTransfer_def firstSegment_def
        a_def b_def b'_def c_def d_def received_def)
  have st: "status a = IComplete" "blob a = Some [1]" "status b' = IComplete" "blob b' = Some [2]"
    "status b = IReceiving"
    by (simp_all add: a_def b_def b'_def received_def)
  note gate = folder_groups_and_save_gate [of "[a, b', c, d]" "''docs''"
      "\<lparr>folderName = ''docs'', files = [a, b']\<rparr>",
      THEN conjunct2, THEN conjunct2, THEN conjunct2, THEN conjunct2, THEN conjunct1]
  from gate
  have s1: "handleSaveFolder ''docs'' [a, b', c, d] = Saves \<lparr>folderName = ''docs'', files = [a, b']\<rparr>"
    by (simp add: g' st)
  have s2: "handleSaveFolder ''docs'' [a, b, c, d]
          = Refused ''Pastikan semua berkas dalam folder selesai diterima sebelum menyimpan.''"
    by (simp add: handleSaveFolder_def g st)
  have s3: "handleSaveFolder ''other'' [a, b', c, d]
          = Refused ''Folder tidak ditemukan dalam antrian penerimaan.''"
    by (simp add: handleSaveFolder_def g')
  from g s1 s2 s3 show ?thesis
    unfolding Let_def received_def [symmetric] a_def [symmetric] b_def [symmetric]
      b'_def [symmetric] c_def [symmetric] d_def [symmetric]
    by simp
qed

section \<open>Room identifiers\<close>

lemma dropWhile_all_iff: "(\<forall>x \<in> set (dropWhile P s). P x) \<longleftrightarrow> (\<forall>x \<in> set s. P x)"
proof
  assume a: "\<forall>x \<in> set (dropWhile P s). P x"
  have "set s = set (takeWhile P s) \<union> set (dropWhile P s)"
    by (metis set_append takeWhile_dropWhile_id)
  with a show "\<forall>x \<in> set s. P x" by (auto dest: set_takeWhileD)
next
  assume "\<forall>x \<in> set s. P x"
  then show "\<forall>x \<in> set (dropWhile P s). P x" by (auto dest: set_dropWhileD)
qed

lemma trim_empty_iff: "trim s = [] \<longleftrightarrow> (\<forall>c \<in> set s. isWhiteSpace c)"
proof -
  have "trim s = [] \<longleftrightarrow> (\<forall>x \<in> set (rev (dropWhile isWhiteSpace s)). isWhiteSpace x)"
    by (simp add: trim_def dropWhile_eq_Nil_conv)
  also have "\<dots> \<longleftrightarrow> (\<forall>x \<in> set (dropWhile isWhiteSpace s). isWhiteSpace x)" by simp
  also have "\<dots> \<longleftrightarrow> (\<forall>c \<in> set s. isWhiteSpace c)" by (rule dropWhile_all_iff)
  finally show ?thesis .
qed

text \<open>
  \<^bold>\<open>C8\<close> (room join). For a \<^verbatim>\<open>room:join\<close> that comes with a payload the handler does what
  the specification says. A \<^verbatim>\<open>roomId\<close> that is not a string, or a string of white space
  only (the empty string included), changes no membership and sends nothing. Otherwise the
  sender is in the room afterwards, the other rooms are unchanged, the sender receives
  exactly the acknowledgment \<^verbatim>\<open>room:joined\<close>, every other member of the room receives
  exactly one \<^verbatim>\<open>peer:joined\<close>, and nobody else receives anything. For a \<^verbatim>\<open>room:join\<close>
  without a payload, where there is no room identifier at all, the handler does not reject
  silently: it throws a \<^verbatim>\<open>TypeError\<close>, while the relaying handlers next to it return
  silently on the same input.
\<close>

theorem room_join_throws_without_payload:
  "roomJoin client NoPayload st = Inl TypeError
   \<and> relayFileMeta client NoPayload st = {}
   \<and> (roomId = OtherValueType \<or> (\<exists>r. roomId = StringValue r \<and> (\<forall>c \<in> set r. isWhiteSpace c))
      \<longrightarrow> roomJoin client (Payload roomId) st = Inr (st, \<lambda>c. []))
   \<and> (roomId = StringValue r \<and> \<not> (\<forall>c \<in> set r. isWhiteSpace c)
      \<longrightarrow> (\<exists>joined sent.
             roomJoin client (Payload roomId) st = Inr (joined, sent)
           \<and> rooms joined r = insert client (rooms st r)
           \<and> (\<forall>r'. r' \<noteq> r \<longrightarrow> rooms joined r' = rooms st r')
           \<and> sent client = [RoomJoined r]
           \<and> (\<forall>c. c \<noteq> client \<longrightarrow> sent c = (if c \<in> rooms st r then [PeerJoined r] else []))))"
proof -
  have thrown: "roomJoin client NoPayload st = Inl TypeError"
    by (simp add: roomJoin_def)
  have sibling: "relayFileMeta client NoPayload st = {}"
    by (simp add: relayFileMeta_def)
  have rejected: "roomJoin client (Payload roomId) st = Inr (st, \<lambda>c. [])"
    if "roomId = OtherValueType \<or> (\<exists>r. roomId = StringValue r \<and> (\<forall>c \<in> set r. isWhiteSpace c))"
    using that by (auto simp: roomJoin_def trim_empty_iff)
  have accepted: "\<exists>joined sent.
             roomJoin client (Payload roomId) st = Inr (joined, sent)
           \<and> rooms joined r = insert client (rooms st r)
           \<and> (\<forall>r'. r' \<noteq> r \<longrightarrow> rooms joined r' = rooms st r')
           \<and> sent client = [RoomJoined r]
           \<and> (\<forall>c. c \<noteq> client \<longrightarrow> sent c = (if c \<in> rooms st r then [PeerJoined r] else []))"
    if "roomId = StringValue r \<and> \<not> (\<forall>c \<in> set r. isWhiteSpace c)"
  proof -
    from that have "trim r \<noteq> []" by (simp add: trim_empty_iff)
    with that show ?thesis by (simp add: roomJoin_def Let_def)
  qed
  from thrown sibling rejected accepted show ?thesis by blast
qed

theorem room_join_throws_without_payload_witness:
  "roomJoin ''B'' NoPayload \<lparr>rooms = (\<lambda>r. {})([0x61, 0x62, 0x31, 0x32] := {''A''})\<rparr> = Inl TypeError
   \<and> map_sum id (\<lambda>(joined, sent). (rooms joined [0x61, 0x62, 0x31, 0x32], rooms joined [0x78],
                                     sent ''A'', sent ''B'', sent ''C''))
       (roomJoin ''B'' (Payload (StringValue [0x61, 0x62, 0x31, 0x32]))
          \<lparr>rooms = (\<lambda>r. {})([0x61, 0x62, 0x31, 0x32] := {''A''})\<rparr>)
     = Inr ({''A'', ''B''}, {}, [PeerJoined [0x61, 0x62, 0x31, 0x32]],
            [RoomJoined [0x61, 0x62, 0x31, 0x32]], [])
   \<and> map_sum id (\<lambda>(joined, sent). (joined, sent ''A'', sent ''B''))
       (roomJoin ''B'' (Payload (StringValue [0x20, 0x3000]))
          \<lparr>rooms = (\<lambda>r. {})([0x61, 0x62, 0x31, 0x32] := {''A''})\<rparr>)
     = Inr (\<lparr>rooms = (\<lambda>r. {})([0x61, 0x62, 0x31, 0x32] := {''A''})\<rparr>, [], [])
   \<and> map_sum id (\<lambda>(joined, sent). (joined, sent ''A'', sent ''B''))
       (roomJoin ''B'' (Payload OtherValueType)
          \<lparr>rooms = (\<lambda>r. {})([0x61, 0x62, 0x31, 0x32] := {''A''})\<rparr>)
     = Inr (\<lparr>rooms = (\<lambda>r. {})([0x61, 0x62, 0x31, 0x32] := {''A''})\<rparr>, [], [])"
proof -
  let ?r = "[0x61, 0x62, 0x31, 0x32] :: js_string"
  let ?st = "\<lparr>rooms = (\<lambda>r. {})(?r := {''A''})\<rparr>"
  have ok: "\<not> (\<forall>c \<in> set ?r. isWhiteSpace c)" by (simp add: isWhiteSpace_def)
  have blank: "\<forall>c \<in> set [0x20, 0x3000]. isWhiteSpace c" by (simp add: isWhiteSpace_def)
  have t: "trim ?r = ?r" by (simp add: trim_def isWhiteSpace_def)
  from ok blank
    room_join_throws_without_payload [of "''B''" ?st "StringValue ?r" ?r]
    room_join_throws_without_payload [of "''B''" ?st "StringValue [0x20, 0x3000]" "[0x20, 0x3000]"]
    room_join_throws_without_payload [of "''B''" ?st OtherValueType "[]"]
  show ?thesis by (auto simp: roomJoin_def t Let_def)
qed

section \<open>Batches and schedules of the sender\<close>











































section \<open>When the error report cannot be sent\<close>

text \<open>
  The isolation of failures rests on the \<^verbatim>\<open>catch\<close> block being able to send
  \<^verbatim>\<open>file:error\<close>. When that emit throws too, the promise of \<^verbatim>\<open>sendFile\<close> rejects, and from
  a state with a rejected transfer the scheduler performs only effects of the transfers
  already started: the batches that wait are never started. The transfer itself is then
  left without its error status, as the second lemma shows for a file whose first read
  fails.
\<close>

lemma rejection_stops_later_batches:
  "schedule faults room started waiting tr \<Longrightarrow> \<exists>t \<in> set started. snd t
   \<Longrightarrow> set tr \<subseteq> \<Union> (set ` fst ` set started)"
proof (induction rule: schedule.induct)
  case (stop started waiting faults room)
  show ?case by simp
next
  case (run k started x rest rejects faults room waiting tr)
  let ?next = "started[k := (rest, rejects)]"
  from run.prems obtain t where t: "t \<in> set started" "snd t" by blast
  then obtain j where j: "j < length started" "started ! j = t"
    by (auto simp: in_set_conv_nth)
  have "snd (?next ! j)"
    using j t(2) run.hyps(1,2) by (cases "j = k") auto
  moreover have "?next ! j \<in> set ?next" using j(1) by simp
  ultimately have "\<exists>t \<in> set ?next. snd t" by blast
  from run.IH [OF this] have later: "set tr \<subseteq> \<Union> (set ` fst ` set ?next)" .
  have here: "(x # rest, rejects) \<in> set started"
    using run.hyps(1,2) by (metis nth_mem)
  have "\<Union> (set ` fst ` set ?next) \<subseteq> \<Union> (set ` fst ` set started)"
  proof
    fix y assume "y \<in> \<Union> (set ` fst ` set ?next)"
    then obtain u where u: "u \<in> set ?next" "y \<in> set (fst u)" by auto
    from u(1) have "u = (rest, rejects) \<or> u \<in> set started"
      by (auto dest: set_update_subset_insert [THEN subsetD])
    then show "y \<in> \<Union> (set ` fst ` set started)"
    proof
      assume "u = (rest, rejects)"
      with u(2) have "y \<in> set (fst (x # rest, rejects))" by simp
      with here show ?thesis by blast
    next
      assume "u \<in> set started"
      with u(2) show ?thesis by blast
    qed
  qed
  moreover have "x \<in> \<Union> (set ` fst ` set started)"
    using here by force
  ultimately show ?case using later by auto
next
  case (next_batch started faults room b bs tr)
  then show ?case by blast
qed

lemma unsent_report_leaves_transfer_sending:
  "sendFile [(FileError ''ab12'' ''t1'' (Some ''unreadable''), OtherValue)] ''ab12'' ''t1''
     \<lparr>queued_id = ''a'',
      queued_file = \<lparr>file_name = ''a'', file_type = [], file_bytes = [1, 2, 3],
                     readFaults = [(0, ErrorObject ''unreadable'')]\<rparr>,
      queued_name = ''a'', queued_size = 3, queued_type = [], queued_relativePath = None\<rparr>
   = ([SetPending \<lparr>transferId = ''t1'', name = ''a'', size_bytes = 3, type_mime = [],
                    relativePath = None, totalChunks = 1\<rparr>,
       Emit (FileMeta ''ab12'' \<lparr>transferId = ''t1'', name = ''a'', size_bytes = 3, type_mime = [],
                    relativePath = None, totalChunks = 1\<rparr>),
       Unqueue ''a''], True)"
proof -
  have n: "totalChunksOf (Suc (Suc (Suc 0))) = Suc 0"
    using totalChunksOf_div [of 3] by (simp add: FILE_CHUNK_SIZE_def numeral_3_eq_3)
  show ?thesis
    unfolding sendFile_def
    apply (simp add: n emitFault_def metaOf_def)
    apply (subst sendChunks.simps)
    apply (simp add: n readFault_def emitFault_def catchBlock_def)
    done
qed

end
